theory Spec2Isabelle
  imports Complex_Main "HOL-Library.Word"
begin

section \<open>The ASCII art generator of \<open>src/components/Generator.tsx\<close>\<close>

text \<open>
  The image-to-glyph pipeline of the \<open>Generator\<close> component is embedded function by
  function. Every definition below carries the name of the source function it translates;
  the closure variable \<open>settings\<close> of the component becomes an explicit first argument.
\<close>

subsection \<open>JavaScript numbers\<close>

text \<open>
  A JavaScript \<open>number\<close> is a double. The model keeps the three special values, because
  the source divides without guarding the divisor, and takes every finite double as the
  real number it denotes: the rounding of a finite result to 53 bits, and the overflow and
  underflow of double arithmetic, are not part of the model. Zero has one sign, \<open>+0\<close>;
  every divisor of the source that can be zero is a difference \<open>a - a\<close>, a counter or a sum
  started at \<open>0\<close>, all of which are \<open>+0\<close>.
\<close>

datatype jsnum = Fin real | PInf | NInf | NaN

fun jsign :: "jsnum \<Rightarrow> real" where
  "jsign (Fin a) = sgn a"
| "jsign PInf = 1"
| "jsign NInf = - 1"
| "jsign NaN = 0"

fun jneg :: "jsnum \<Rightarrow> jsnum" where
  "jneg (Fin a) = Fin (- a)"
| "jneg PInf = NInf"
| "jneg NInf = PInf"
| "jneg NaN = NaN"

fun jadd :: "jsnum \<Rightarrow> jsnum \<Rightarrow> jsnum" where
  "jadd NaN _ = NaN"
| "jadd _ NaN = NaN"
| "jadd (Fin a) (Fin b) = Fin (a + b)"
| "jadd PInf NInf = NaN"
| "jadd NInf PInf = NaN"
| "jadd PInf _ = PInf"
| "jadd _ PInf = PInf"
| "jadd NInf _ = NInf"
| "jadd _ NInf = NInf"

definition jsub :: "jsnum \<Rightarrow> jsnum \<Rightarrow> jsnum" where
  "jsub a b = jadd a (jneg b)"

fun jmul :: "jsnum \<Rightarrow> jsnum \<Rightarrow> jsnum" where
  "jmul NaN _ = NaN"
| "jmul _ NaN = NaN"
| "jmul (Fin a) (Fin b) = Fin (a * b)"
| "jmul x y = (if jsign x * jsign y = 0 then NaN
               else if 0 < jsign x * jsign y then PInf else NInf)"

fun jdiv :: "jsnum \<Rightarrow> jsnum \<Rightarrow> jsnum" where
  "jdiv NaN _ = NaN"
| "jdiv _ NaN = NaN"
| "jdiv (Fin a) (Fin b) =
     (if b = 0 then (if a = 0 then NaN else if 0 < a then PInf else NInf) else Fin (a / b))"
| "jdiv (Fin a) _ = Fin 0"
| "jdiv PInf (Fin b) = (if 0 \<le> b then PInf else NInf)"
| "jdiv NInf (Fin b) = (if 0 \<le> b then NInf else PInf)"
| "jdiv _ _ = NaN"

text \<open>The remainder \<open>a % b\<close> takes the sign of the dividend (the quotient is truncated).\<close>

definition trunc :: "real \<Rightarrow> int" where
  "trunc x = (if 0 \<le> x then \<lfloor>x\<rfloor> else \<lceil>x\<rceil>)"

fun jmod :: "jsnum \<Rightarrow> jsnum \<Rightarrow> jsnum" where
  "jmod (Fin a) (Fin b) = (if b = 0 then NaN else Fin (a - b * of_int (trunc (a / b))))"
| "jmod (Fin a) PInf = Fin a"
| "jmod (Fin a) NInf = Fin a"
| "jmod _ _ = NaN"

fun jfloor :: "jsnum \<Rightarrow> jsnum" where
  "jfloor (Fin a) = Fin (of_int \<lfloor>a\<rfloor>)"
| "jfloor x = x"

text \<open>\<open>Math.round\<close> rounds a tie towards \<open>+\<infinity>\<close>.\<close>

fun jround :: "jsnum \<Rightarrow> jsnum" where
  "jround (Fin a) = Fin (of_int \<lfloor>a + 1 / 2\<rfloor>)"
| "jround x = x"

fun jlt :: "jsnum \<Rightarrow> jsnum \<Rightarrow> bool" where
  "jlt NaN _ = False"
| "jlt _ NaN = False"
| "jlt (Fin a) (Fin b) = (a < b)"
| "jlt _ NInf = False"
| "jlt PInf _ = False"
| "jlt _ _ = True"

fun jmin :: "jsnum \<Rightarrow> jsnum \<Rightarrow> jsnum" where
  "jmin NaN _ = NaN"
| "jmin _ NaN = NaN"
| "jmin a b = (if jlt b a then b else a)"

fun jmax :: "jsnum \<Rightarrow> jsnum \<Rightarrow> jsnum" where
  "jmax NaN _ = NaN"
| "jmax _ NaN = NaN"
| "jmax a b = (if jlt a b then b else a)"

fun jexp :: "jsnum \<Rightarrow> jsnum" where
  "jexp (Fin a) = Fin (exp a)"
| "jexp PInf = PInf"
| "jexp NInf = Fin 0"
| "jexp NaN = NaN"

fun jsqrt :: "jsnum \<Rightarrow> jsnum" where
  "jsqrt (Fin a) = (if a < 0 then NaN else Fin (sqrt a))"
| "jsqrt PInf = PInf"
| "jsqrt _ = NaN"

text \<open>\<open>Math.atan2(y, x)\<close>, on finite arguments first and on infinite ones as IEEE 754 has it.\<close>

definition atan2 :: "real \<Rightarrow> real \<Rightarrow> real" where
  "atan2 y x =
     (if 0 < x then arctan (y / x)
      else if x < 0 then (if 0 \<le> y then arctan (y / x) + pi else arctan (y / x) - pi)
      else if 0 < y then pi / 2
      else if y < 0 then - (pi / 2)
      else 0)"

fun jatan2 :: "jsnum \<Rightarrow> jsnum \<Rightarrow> jsnum" where
  "jatan2 NaN _ = NaN"
| "jatan2 _ NaN = NaN"
| "jatan2 (Fin y) (Fin x) = Fin (atan2 y x)"
| "jatan2 (Fin y) PInf = Fin 0"
| "jatan2 (Fin y) NInf = (if 0 \<le> y then Fin pi else Fin (- pi))"
| "jatan2 PInf (Fin x) = Fin (pi / 2)"
| "jatan2 NInf (Fin x) = Fin (- (pi / 2))"
| "jatan2 PInf PInf = Fin (pi / 4)"
| "jatan2 NInf PInf = Fin (- (pi / 4))"
| "jatan2 PInf NInf = Fin (3 * pi / 4)"
| "jatan2 NInf NInf = Fin (- (3 * pi / 4))"

subsection \<open>Typed arrays\<close>

type_synonym u8 = "8 word"

text \<open>
  An element read outside an array is \<open>undefined\<close>, which arithmetic turns into \<open>NaN\<close>;
  a store outside a typed array is dropped.
\<close>

definition rd :: "u8 list \<Rightarrow> int \<Rightarrow> jsnum" where
  "rd xs i = (if 0 \<le> i \<and> i < int (length xs) then Fin (of_int (uint (xs ! nat i))) else NaN)"

definition rdF :: "jsnum list \<Rightarrow> int \<Rightarrow> jsnum" where
  "rdF xs i = (if 0 \<le> i \<and> i < int (length xs) then xs ! nat i else NaN)"

definition wr :: "'a list \<Rightarrow> int \<Rightarrow> 'a \<Rightarrow> 'a list" where
  "wr xs i v = (if 0 \<le> i \<and> i < int (length xs) then xs[nat i := v] else xs)"

text \<open>The conversion of a store into a \<open>Uint8Array\<close>: truncate, then wrap modulo 256.\<close>

fun ToUint8 :: "jsnum \<Rightarrow> u8" where
  "ToUint8 (Fin a) = word_of_int (trunc a)"
| "ToUint8 _ = 0"

text \<open>
  The conversion of a store into a \<open>Float32Array\<close> rounds to the nearest \<open>float32\<close>. The
  model writes out what that does at the two ends of the range, where it changes what the
  code computes next: a magnitude of at most \<open>1 / 2 ^ 150\<close>, half the least positive
  \<open>float32\<close>, is stored as 0, and a magnitude of at least \<open>(2 - 1 / 2 ^ 24) * 2 ^ 127\<close> as
  an infinity. In between, the value is kept as it is: the rounding to 24 bits is not part of
  the model.
\<close>

fun ToFloat32 :: "jsnum \<Rightarrow> jsnum" where
  "ToFloat32 (Fin a) =
     (if \<bar>a\<bar> \<le> 1 / 2 ^ 150 then Fin 0
      else if (2 - 1 / 2 ^ 24) * 2 ^ 127 \<le> \<bar>a\<bar> then (if 0 < a then PInf else NInf)
      else Fin a)"
| "ToFloat32 x = x"

text \<open>
  The conversion of a store into a \<open>Uint8ClampedArray\<close>: clamp to \<open>[0, 255]\<close>, round to
  the nearest integer, a tie to the even one; \<open>NaN\<close> becomes 0.
\<close>

definition roundHalfEven :: "real \<Rightarrow> int" where
  "roundHalfEven x =
     (if x - of_int \<lfloor>x\<rfloor> < 1 / 2 then \<lfloor>x\<rfloor>
      else if 1 / 2 < x - of_int \<lfloor>x\<rfloor> then \<lfloor>x\<rfloor> + 1
      else if even \<lfloor>x\<rfloor> then \<lfloor>x\<rfloor> else \<lfloor>x\<rfloor> + 1)"

fun ToUint8Clamp :: "jsnum \<Rightarrow> u8" where
  "ToUint8Clamp (Fin a) =
     (if a \<le> 0 then 0 else if 255 \<le> a then 255 else word_of_int (roundHalfEven a))"
| "ToUint8Clamp PInf = 255"
| "ToUint8Clamp _ = 0"

subsection \<open>Loops\<close>

text \<open>
  \<open>for (let i = a; i < n; i++) body\<close>, for a body that assigns neither \<open>i\<close> nor \<open>n\<close>:
  the state \<open>s\<close> holds the variables the body updates, and a \<open>continue\<close> is a body that
  returns its state unchanged.
\<close>

function forLoop :: "int \<Rightarrow> int \<Rightarrow> (int \<Rightarrow> 's \<Rightarrow> 's) \<Rightarrow> 's \<Rightarrow> 's" where
  "forLoop i n body s = (if i < n then forLoop (i + 1) n body (body i s) else s)"
  by pat_completeness auto
termination
  by (relation "measure (\<lambda>(i, n, body, s). nat (n - i))") auto

declare forLoop.simps [simp del]

text \<open>
  \<open>for (let i = a; i < n; i += step) body\<close>. With \<open>step \<le> 0\<close> and \<open>a < n\<close> the loop of the
  source never ends; not returning is the value \<open>None\<close>.
\<close>

partial_function (option)
  stepLoop :: "int \<Rightarrow> int \<Rightarrow> int \<Rightarrow> (int \<Rightarrow> 's \<Rightarrow> 's option) \<Rightarrow> 's \<Rightarrow> 's option" where
  "stepLoop i n step body s =
     (if i < n then Option.bind (body i s) (stepLoop (i + step) n step body) else Some s)"

declare stepLoop.simps [code]

subsection \<open>Data\<close>

text \<open>
  The interface \<open>Settings\<close>. The component sets \<open>blockSize\<close> with \<open>parseInt\<close> from a
  slider, so it is an integer; \<open>brightness\<close> and the two sigmas come from \<open>parseFloat\<close>
  and are finite. \<open>asciiChars\<close> is a free text field, indexed by code unit.
\<close>

record Settings =
  blockSize :: int
  brightness :: real
  autoAdjust :: bool
  detectEdges :: bool
  color :: bool
  invertColor :: bool
  asciiChars :: string
  sigma1 :: real
  sigma2 :: real

text \<open>
  \<open>ImageData\<close>: \<open>width\<close> and \<open>height\<close> are unsigned, \<open>data\<close> is a \<open>Uint8ClampedArray\<close>
  of RGBA bytes. The browser keeps \<open>data\<close> at \<open>width * height * 4\<close> bytes; the record does
  not, and a property that needs the length says so.
\<close>

record ImageData =
  width :: nat
  height :: nat
  data :: "u8 list"

text \<open>The result of \<open>applySobelFilter\<close>, two \<open>Float32Array\<close>s.\<close>

record EdgeData =
  magnitude :: "jsnum list"
  direction :: "jsnum list"

text \<open>The result of \<open>calculateBlockInfo\<close>.\<close>

record BlockInfo =
  sumBrightness :: jsnum
  sumColor :: "jsnum list"
  pixelCount :: int
  sumMag :: jsnum
  sumDir :: jsnum

datatype error = RangeError

subsection \<open>\<open>rgbToGrayscale\<close>\<close>

definition luminance :: "jsnum \<Rightarrow> jsnum \<Rightarrow> jsnum \<Rightarrow> jsnum" where
  "luminance r g b =
     jround (jadd (jadd (jmul (Fin 0.299) r) (jmul (Fin 0.587) g)) (jmul (Fin 0.114) b))"

function rgbToGrayscale_loop :: "u8 list \<Rightarrow> int \<Rightarrow> u8 list \<Rightarrow> u8 list" where
  "rgbToGrayscale_loop d i gray =
     (if i < int (length d)
      then rgbToGrayscale_loop d (i + 4)
             (wr gray (i div 4) (ToUint8 (luminance (rd d i) (rd d (i + 1)) (rd d (i + 2)))))
      else gray)"
  by pat_completeness auto
termination
  by (relation "measure (\<lambda>(d, i, gray). nat (int (length d) - i))") auto

declare rgbToGrayscale_loop.simps [simp del]

definition rgbToGrayscale :: "ImageData \<Rightarrow> u8 list" where
  "rgbToGrayscale imageData =
     rgbToGrayscale_loop (data imageData) 0 (replicate (width imageData * height imageData) 0)"

subsection \<open>\<open>gaussianKernel\<close> and \<open>applyGaussianBlur\<close>\<close>

text \<open>\<open>new Float32Array(size)\<close> throws a \<open>RangeError\<close> for a negative size.\<close>

text \<open>
  The kernel is a \<open>Float32Array\<close>: \<open>sum += kernel[i]\<close> reads back what the store before it
  has kept of \<open>Math.exp(...)\<close>, and \<open>kernel[i] /= sum\<close> stores again. As everywhere in the
  model, the products, the quotients and \<open>Math.exp\<close> are those of the real numbers: the size
  is the ceiling of the exact \<open>6 * sigma\<close> and the entries carry no rounding, so the model
  says nothing about the tolerance within which the entries of the code sum to 1. An
  allocation that the engine refuses for its size is not modelled either.
\<close>

definition gaussianKernel :: "real \<Rightarrow> error + jsnum list" where
  "gaussianKernel sigma =
     (let size = \<lceil>6 * sigma\<rceil> in
      if size < 0 then Inl RangeError
      else
        let half = real_of_int size / 2;
            (kernel, total) =
              forLoop 0 size
                (\<lambda>i (kernel, total).
                   let x = real_of_int i - half;
                       k = ToFloat32 (jexp (jdiv (Fin (- (x * x))) (Fin (2 * sigma * sigma))))
                   in (wr kernel i k, jadd total k))
                (replicate (nat size) (Fin 0), Fin 0)
        in Inr (forLoop 0 size
                  (\<lambda>i kernel. wr kernel i (ToFloat32 (jdiv (rdF kernel i) total))) kernel))"

definition convolve :: "jsnum list \<Rightarrow> (int \<Rightarrow> bool) \<Rightarrow> (int \<Rightarrow> jsnum) \<Rightarrow> int \<Rightarrow> jsnum" where
  "convolve ker inside sample c =
     forLoop 0 (int (length ker))
       (\<lambda>i total.
          let ic = c + i - int (length ker) div 2
          in if inside ic then jadd total (jmul (sample ic) (rdF ker i)) else total)
       (Fin 0)"

definition applyGaussianBlur :: "ImageData \<Rightarrow> real \<Rightarrow> error + u8 list" where
  "applyGaussianBlur imageData sigma =
     (let w = int (width imageData); h = int (height imageData) in
      case gaussianKernel sigma of
        Inl e \<Rightarrow> Inl e
      | Inr ker \<Rightarrow>
          let gray = rgbToGrayscale imageData;
              temp =
                forLoop 0 h
                  (\<lambda>y. forLoop 0 w
                     (\<lambda>x temp. wr temp (y * w + x)
                        (ToUint8 (convolve ker (\<lambda>ix. 0 \<le> ix \<and> ix < w)
                                    (\<lambda>ix. rd gray (y * w + ix)) x))))
                  (replicate (nat (w * h)) 0)
          in Inr (forLoop 0 h
                    (\<lambda>y. forLoop 0 w
                       (\<lambda>x result. wr result (y * w + x)
                          (ToUint8 (convolve ker (\<lambda>iy. 0 \<le> iy \<and> iy < h)
                                      (\<lambda>iy. rd temp (iy * w + x)) y))))
                    (replicate (nat (w * h)) 0)))"

subsection \<open>\<open>differenceOfGaussians\<close>\<close>

definition dogSample :: "jsnum \<Rightarrow> jsnum \<Rightarrow> jsnum" where
  "dogSample b1 b2 = jmax (Fin 0) (jmin (Fin 255) (jadd (jsub b1 b2) (Fin 128)))"

definition differenceOfGaussians :: "Settings \<Rightarrow> ImageData \<Rightarrow> error + u8 list" where
  "differenceOfGaussians st imageData =
     (case applyGaussianBlur imageData (sigma1 st) of
        Inl e \<Rightarrow> Inl e
      | Inr blur1 \<Rightarrow>
         (case applyGaussianBlur imageData (sigma2 st) of
            Inl e \<Rightarrow> Inl e
          | Inr blur2 \<Rightarrow>
              Inr (forLoop 0 (int (width imageData * height imageData))
                     (\<lambda>i result. wr result i (ToUint8 (dogSample (rd blur1 i) (rd blur2 i))))
                     (replicate (width imageData * height imageData) 0))))"

subsection \<open>\<open>applySobelFilter\<close>\<close>

definition Gx :: "int list list" where
  "Gx = [[- 1, 0, 1], [- 2, 0, 2], [- 1, 0, 1]]"

definition Gy :: "int list list" where
  "Gy = [[- 1, - 2, - 1], [0, 0, 0], [1, 2, 1]]"

definition sobelAt :: "u8 list \<Rightarrow> int \<Rightarrow> int \<Rightarrow> int \<Rightarrow> jsnum \<times> jsnum" where
  "sobelAt grayData w x y =
     forLoop 0 3
       (\<lambda>i. forLoop 0 3
          (\<lambda>j (gx, gy).
             let pixel = rd grayData ((y + i - 1) * w + (x + j - 1))
             in (jadd gx (jmul (Fin (of_int (Gx ! nat i ! nat j))) pixel),
                 jadd gy (jmul (Fin (of_int (Gy ! nat i ! nat j))) pixel))))
       (Fin 0, Fin 0)"

definition applySobelFilter :: "u8 list \<Rightarrow> int \<Rightarrow> int \<Rightarrow> EdgeData" where
  "applySobelFilter grayData w h =
     forLoop 1 (h - 1)
       (\<lambda>y. forLoop 1 (w - 1)
          (\<lambda>x e.
             let (gx, gy) = sobelAt grayData w x y
             in \<lparr>magnitude =
                   wr (magnitude e) (y * w + x)
                     (ToFloat32 (jsqrt (jadd (jmul gx gx) (jmul gy gy)))),
                 direction = wr (direction e) (y * w + x) (ToFloat32 (jatan2 gy gx))\<rparr>))
       \<lparr>magnitude = replicate (nat (w * h)) (Fin 0), direction = replicate (nat (w * h)) (Fin 0)\<rparr>"

subsection \<open>\<open>getEdgeChar\<close>\<close>

text \<open>
  An array or string indexed by a number that is not one of its indices gives \<open>undefined\<close>,
  here \<open>None\<close>. \<open>getEdgeChar\<close> returns \<open>null\<close> below the threshold; its caller tests the
  result for truthiness only, so \<open>null\<close> and \<open>undefined\<close> are both \<open>None\<close>.
\<close>

fun jsIndex :: "'a list \<Rightarrow> jsnum \<Rightarrow> 'a option" where
  "jsIndex xs (Fin a) =
     (if a = of_int \<lfloor>a\<rfloor> \<and> 0 \<le> a \<and> a < of_nat (length xs) then Some (xs ! nat \<lfloor>a\<rfloor>) else None)"
| "jsIndex xs _ = None"

definition edgeTable :: "char list" where
  "edgeTable = [CHR ''-'', CHR 0x5C, CHR ''|'', CHR ''/'', CHR ''-'', CHR 0x5C, CHR ''|'', CHR ''/'']"

definition edgeIndex :: "jsnum \<Rightarrow> jsnum" where
  "edgeIndex dir =
     (let angle = jmul (jadd dir (Fin pi)) (jdiv (Fin 180) (Fin pi))
      in jfloor (jdiv (jmod (jadd angle (Fin 22.5)) (Fin 180)) (Fin 45)))"

definition getEdgeChar :: "jsnum \<Rightarrow> jsnum \<Rightarrow> char option" where
  "getEdgeChar mag dir =
     (if jlt mag (Fin 50) then None else jsIndex edgeTable (edgeIndex dir))"

subsection \<open>\<open>autoBrightnessContrast\<close>\<close>

definition histogramOf :: "u8 list \<Rightarrow> int list" where
  "histogramOf gray =
     forLoop 0 (int (length gray))
       (\<lambda>i histogram.
          histogram[unat (gray ! nat i) := histogram ! unat (gray ! nat i) + 1])
       (replicate 256 0)"

definition accumulatorOf :: "int list \<Rightarrow> int list" where
  "accumulatorOf histogram =
     forLoop 1 256
       (\<lambda>i accumulator. accumulator[nat i := accumulator ! nat (i - 1) + histogram ! nat i])
       ((replicate 256 0)[0 := histogram ! 0])"

text \<open>
  \<open>while (accumulator[minGray] < clipHistCount) minGray++\<close> and
  \<open>while (accumulator[maxGray] >= max - clipHistCount) maxGray--\<close>: a read outside the
  array is \<open>undefined\<close>, and a comparison with \<open>undefined\<close> is false, which ends the loop.
\<close>

function minGrayLoop :: "int list \<Rightarrow> int \<Rightarrow> int \<Rightarrow> int" where
  "minGrayLoop accumulator clipHistCount minGray =
     (if 0 \<le> minGray \<and> minGray < int (length accumulator)
         \<and> accumulator ! nat minGray < clipHistCount
      then minGrayLoop accumulator clipHistCount (minGray + 1)
      else minGray)"
  by pat_completeness auto
termination
  by (relation "measure (\<lambda>(a, c, m). nat (int (length a) - m))") auto

declare minGrayLoop.simps [simp del]

function maxGrayLoop :: "int list \<Rightarrow> int \<Rightarrow> int \<Rightarrow> int" where
  "maxGrayLoop accumulator bound maxGray =
     (if 0 \<le> maxGray \<and> maxGray < int (length accumulator)
         \<and> bound \<le> accumulator ! nat maxGray
      then maxGrayLoop accumulator bound (maxGray - 1)
      else maxGray)"
  by pat_completeness auto
termination
  by (relation "measure (\<lambda>(a, b, m). nat (m + 1))") auto

declare maxGrayLoop.simps [simp del]

definition clipBounds :: "ImageData \<Rightarrow> int \<times> int" where
  "clipBounds imageData =
     (let accumulator = accumulatorOf (histogramOf (rgbToGrayscale imageData));
          total = accumulator ! 255;
          clipHistCount = \<lfloor>real_of_int (total * 1) / 100 / 2\<rfloor>
      in (minGrayLoop accumulator clipHistCount 0,
          maxGrayLoop accumulator (total - clipHistCount) 255))"

definition stretchAlpha :: "ImageData \<Rightarrow> jsnum" where
  "stretchAlpha imageData =
     (let (minGray, maxGray) = clipBounds imageData
      in jdiv (Fin 255) (Fin (of_int (maxGray - minGray))))"

definition stretchBeta :: "ImageData \<Rightarrow> jsnum" where
  "stretchBeta imageData =
     (let (minGray, maxGray) = clipBounds imageData
      in jmul (jneg (Fin (of_int minGray))) (stretchAlpha imageData))"

definition autoBrightnessContrast :: "ImageData \<Rightarrow> ImageData" where
  "autoBrightnessContrast imageData =
     (let alpha = stretchAlpha imageData;
          beta = stretchBeta imageData;
          result =
            forLoop 0 (int (length (data imageData)))
              (\<lambda>i result.
                 wr result i (ToUint8Clamp (jadd (jmul (rd (data imageData) i) alpha) beta)))
              (replicate (length (data imageData)) 0)
      in \<lparr>width = width imageData, height = height imageData, data = result\<rparr>)"

subsection \<open>\<open>calculateBlockInfo\<close>\<close>

text \<open>The body of the two nested loops, at pixel \<open>(ix, iy)\<close>.\<close>

definition blockPixel ::
  "Settings \<Rightarrow> ImageData \<Rightarrow> EdgeData option \<Rightarrow> int \<Rightarrow> int \<Rightarrow> BlockInfo \<Rightarrow> BlockInfo" where
  "blockPixel st imageData edgeData ix iy acc =
     (let w = int (width imageData);
          h = int (height imageData);
          i = (iy * w + ix) * 4
      in if w \<le> ix \<or> h \<le> iy \<or> int (length (data imageData)) \<le> i + 2 then acc
         else
           let r = rd (data imageData) i;
               g = rd (data imageData) (i + 1);
               b = rd (data imageData) (i + 2);
               gray = luminance r g b;
               acc1 = acc\<lparr>sumBrightness := jadd (sumBrightness acc) gray\<rparr>;
               acc2 =
                 (if color st
                  then acc1\<lparr>sumColor :=
                         [jadd (rdF (sumColor acc1) 0) r,
                          jadd (rdF (sumColor acc1) 1) g,
                          jadd (rdF (sumColor acc1) 2) b]\<rparr>
                  else acc1);
               acc3 =
                 (case edgeData of
                    Some e \<Rightarrow>
                      if detectEdges st
                      then acc2\<lparr>sumMag := jadd (sumMag acc2) (rdF (magnitude e) (iy * w + ix)),
                                sumDir := jadd (sumDir acc2) (rdF (direction e) (iy * w + ix))\<rparr>
                      else acc2
                  | None \<Rightarrow> acc2)
           in acc3\<lparr>pixelCount := pixelCount acc3 + 1\<rparr>)"

definition calculateBlockInfo ::
  "Settings \<Rightarrow> ImageData \<Rightarrow> int \<Rightarrow> int \<Rightarrow> EdgeData option \<Rightarrow> BlockInfo" where
  "calculateBlockInfo st imageData x y edgeData =
     (let blockW = min (blockSize st) (int (width imageData) - x);
          blockH = min (blockSize st) (int (height imageData) - y)
      in forLoop 0 blockH
           (\<lambda>dy. forLoop 0 blockW (\<lambda>dx. blockPixel st imageData edgeData (x + dx) (y + dy)))
           \<lparr>sumBrightness = Fin 0, sumColor = [Fin 0, Fin 0, Fin 0], pixelCount = 0,
            sumMag = Fin 0, sumDir = Fin 0\<rparr>)"

subsection \<open>\<open>selectAsciiChar\<close> and \<open>calculateAverageColor\<close>\<close>

definition avgBrightness :: "BlockInfo \<Rightarrow> jsnum" where
  "avgBrightness blockInfo =
     jfloor (jdiv (sumBrightness blockInfo) (Fin (of_int (pixelCount blockInfo))))"

definition clampedBrightness :: "Settings \<Rightarrow> BlockInfo \<Rightarrow> jsnum" where
  "clampedBrightness st blockInfo =
     (let boostedBrightness = jfloor (jmul (avgBrightness blockInfo) (Fin (brightness st)))
      in jmax (Fin 0) (jmin (Fin 255) boostedBrightness))"

definition edgeOverride :: "Settings \<Rightarrow> BlockInfo \<Rightarrow> char option" where
  "edgeOverride st blockInfo =
     (if detectEdges st
      then getEdgeChar (jdiv (sumMag blockInfo) (Fin (of_int (pixelCount blockInfo))))
                       (jdiv (sumDir blockInfo) (Fin (of_int (pixelCount blockInfo))))
      else None)"

definition rampChar :: "Settings \<Rightarrow> jsnum \<Rightarrow> char option" where
  "rampChar st clamped =
     (if clamped = Fin 0 then Some CHR '' ''
      else
        let n = Fin (of_nat (length (asciiChars st)));
            charIndex = jfloor (jdiv (jmul clamped n) (Fin 256))
        in jsIndex (asciiChars st) (jmin charIndex (jsub n (Fin 1))))"

text \<open>The result is \<open>None\<close> where the source returns \<open>undefined\<close>.\<close>

definition selectAsciiChar :: "Settings \<Rightarrow> BlockInfo \<Rightarrow> char option" where
  "selectAsciiChar st blockInfo =
     (case edgeOverride st blockInfo of
        Some edgeChar \<Rightarrow> Some edgeChar
      | None \<Rightarrow> rampChar st (clampedBrightness st blockInfo))"

definition calculateAverageColor :: "Settings \<Rightarrow> BlockInfo \<Rightarrow> jsnum list" where
  "calculateAverageColor st blockInfo =
     (if \<not> color st then [Fin 255, Fin 255, Fin 255]
      else
        let c = map (\<lambda>total. jfloor (jdiv total (Fin (of_int (pixelCount blockInfo)))))
                  (sumColor blockInfo)
        in if invertColor st then map (\<lambda>c. jsub (Fin 255) c) c else c)"

subsection \<open>\<open>generate\<close>\<close>

text \<open>
  The state of the component that \<open>generate\<close> reads and writes: the loaded image (decoding
  it is outside this model, so it is the \<open>ImageData\<close> that \<open>getImageData\<close> returns), the
  text passed to \<open>setAsciiText\<close>, and the canvas, \<open>None\<close> while it is not mounted and
  otherwise the \<open>fillText\<close> calls of the last run: fill colour, glyph and position.
\<close>

type_synonym fillText = "jsnum list \<times> char option \<times> int \<times> int"

record Component =
  originalImage :: "ImageData option"
  asciiText :: string
  canvas :: "fillText list option"

text \<open>
  \<open>generate\<close> returns at once without an image or a canvas. The two calls of
  \<open>getContext('2d')\<close> are taken to succeed, as they do on a canvas that has no other
  context. An exception leaves the text as it was. \<open>edgeDataOf\<close> is the part of the body
  that computes \<open>edgeData\<close>, \<open>renderBlocks\<close> the two loops over the block origins.

  \<open>rowText += char\<close> appends the text \<open>undefined\<close> for an undefined glyph.
\<close>

definition glyphText :: "char option \<Rightarrow> string" where
  "glyphText c = (case c of Some ch \<Rightarrow> [ch] | None \<Rightarrow> ''undefined'')"

definition edgeDataOf :: "Settings \<Rightarrow> ImageData \<Rightarrow> error + EdgeData option" where
  "edgeDataOf st imageData =
     (if detectEdges st
      then (case differenceOfGaussians st imageData of
              Inl e \<Rightarrow> Inl e
            | Inr dogResult \<Rightarrow>
                Inr (Some (applySobelFilter dogResult (int (width imageData))
                             (int (height imageData)))))
      else Inr None)"

definition renderBlocks ::
  "Settings \<Rightarrow> ImageData \<Rightarrow> EdgeData option \<Rightarrow> (string \<times> fillText list) option" where
  "renderBlocks st imageData edgeData =
     stepLoop 0 (int (height imageData)) (blockSize st)
       (\<lambda>y (newAsciiText, drawn).
          Option.bind
            (stepLoop 0 (int (width imageData)) (blockSize st)
               (\<lambda>x (rowText, drawn).
                  let blockInfo = calculateBlockInfo st imageData x y edgeData;
                      char = selectAsciiChar st blockInfo;
                      colour = calculateAverageColor st blockInfo
                  in Some (rowText @ glyphText char,
                           drawn @ [(colour, char, x, y + blockSize st)]))
               ([], drawn))
            (\<lambda>(rowText, drawn). Some (newAsciiText @ rowText @ [CHR 0x0A], drawn)))
       ([], [])"

definition generate :: "Settings \<Rightarrow> Component \<Rightarrow> (error + Component) option" where
  "generate st s =
     (case originalImage s of
        None \<Rightarrow> Some (Inr s)
      | Some img \<Rightarrow>
         (case canvas s of
            None \<Rightarrow> Some (Inr s)
          | Some previous \<Rightarrow>
              let imageData = (if autoAdjust st then autoBrightnessContrast img else img)
              in case edgeDataOf st imageData of
                   Inl e \<Rightarrow> Some (Inl e)
                 | Inr edgeData \<Rightarrow>
                     map_option
                       (\<lambda>(newAsciiText, drawn).
                          Inr (s\<lparr>asciiText := newAsciiText, canvas := Some drawn\<rparr>))
                       (renderBlocks st imageData edgeData)))"

definition generatedText :: "(error + Component) option \<Rightarrow> string option" where
  "generatedText r = (case r of Some (Inr s) \<Rightarrow> Some (asciiText s) | _ \<Rightarrow> None)"

subsection \<open>Settings and images of the scenarios\<close>

text \<open>The initial value of the \<open>settings\<close> state of the component.\<close>

definition defaultSettings :: Settings where
  "defaultSettings =
     \<lparr>blockSize = 8, brightness = 1.0, autoAdjust = True, detectEdges = False, color = True,
      invertColor = False, asciiChars = '' .:-=+*#%@'', sigma1 = 0.5, sigma2 = 1.0\<rparr>"

text \<open>Scenario A: no contrast stretch, no colour, no edge detection.\<close>

definition scenarioSettings :: Settings where
  "scenarioSettings = defaultSettings\<lparr>autoAdjust := False, color := False\<rparr>"

text \<open>A uniform black image of 16 by 16 pixels, every pixel \<open>(0, 0, 0, a)\<close>.\<close>

definition blackImage :: "u8 \<Rightarrow> ImageData" where
  "blackImage a = \<lparr>width = 16, height = 16, data = concat (replicate 256 [0, 0, 0, a])\<rparr>"

text \<open>The statistics of a block of \<open>n\<close> black pixels, without colour and edge sums.\<close>

definition blackBlock :: "int \<Rightarrow> BlockInfo" where
  "blackBlock n =
     \<lparr>sumBrightness = Fin 0, sumColor = [Fin 0, Fin 0, Fin 0], pixelCount = n,
      sumMag = Fin 0, sumDir = Fin 0\<rparr>"

text \<open>
  Two opaque pixels, black and \<open>(0, 2, 0)\<close>, of luminance 0 and \<open>0.587 * 2 = 1.174\<close>, which
  the \<open>Uint8Array\<close> of grey levels keeps as 0 and 1: the clipping bounds coincide.
\<close>

definition degenerateImage :: ImageData where
  "degenerateImage = \<lparr>width = 2, height = 1, data = [0, 0, 0, 255, 0, 2, 0, 255]\<rparr>"


subsection \<open>Gradient data of the pipeline\<close>

text \<open>
  What \<open>applySobelFilter\<close> returns for an image of \<open>n\<close> pixels: two arrays of length \<open>n\<close>,
  every magnitude finite and every direction a finite angle in \<open>[-\<pi>, \<pi>]\<close>; and what the
  block loops keep of the gradient sums: finite, the direction sum within \<open>\<pi>\<close> times the
  pixel count.
\<close>

fun isFin :: "jsnum \<Rightarrow> bool" where
  "isFin (Fin a) = True"
| "isFin _ = False"

fun isAngle :: "jsnum \<Rightarrow> bool" where
  "isAngle (Fin a) = (- pi \<le> a \<and> a \<le> pi)"
| "isAngle _ = False"

definition edgeOk :: "nat \<Rightarrow> EdgeData \<Rightarrow> bool" where
  "edgeOk n e \<longleftrightarrow>
     length (magnitude e) = n \<and> length (direction e) = n
     \<and> list_all isFin (magnitude e) \<and> list_all isAngle (direction e)"

definition sumsOk :: "BlockInfo \<Rightarrow> bool" where
  "sumsOk b \<longleftrightarrow>
     0 \<le> pixelCount b \<and> isFin (sumMag b)
     \<and> (case sumDir b of Fin d \<Rightarrow> \<bar>d\<bar> \<le> pi * of_int (pixelCount b) | _ \<Rightarrow> False)"

section \<open>Properties\<close>

subsection \<open>Loops and arrays\<close>

lemma forLoop_done: "n \<le> i \<Longrightarrow> forLoop i n body s = s"
  by (simp add: forLoop.simps)

lemma forLoop_step: "i < n \<Longrightarrow> forLoop i n body s = forLoop (i + 1) n body (body i s)"
  by (subst forLoop.simps) simp

text \<open>An invariant that may mention the loop counter holds when the loop ends.\<close>

lemma forLoop_invariant:
  assumes "P i s" and "i \<le> n"
    and "\<And>j t. i \<le> j \<Longrightarrow> j < n \<Longrightarrow> P j t \<Longrightarrow> P (j + 1) (body j t)"
  shows "P n (forLoop i n body s)"
  using assms
proof (induction i n body s rule: forLoop.induct)
  case (1 i n body s)
  show ?case
  proof (cases "i < n")
    case True
    have "P (i + 1) (body i s)" using 1 True by simp
    moreover have "i + 1 \<le> n" using True by simp
    moreover have "\<And>j t. i + 1 \<le> j \<Longrightarrow> j < n \<Longrightarrow> P j t \<Longrightarrow> P (j + 1) (body j t)"
      using "1.prems"(3) by simp
    ultimately have "P n (forLoop (i + 1) n body (body i s))"
      using "1.IH" True by blast
    then show ?thesis using True by (simp add: forLoop_step)
  next
    case False
    then have "i = n" using 1 by simp
    then show ?thesis using 1 by (simp add: forLoop_done)
  qed
qed

text \<open>A property that every iteration keeps holds when the loop ends, whatever its bounds.\<close>

lemma forLoop_preserves:
  assumes "Q s" and "\<And>j t. Q t \<Longrightarrow> Q (body j t)"
  shows "Q (forLoop i n body s)"
  using assms
proof (induction i n body s rule: forLoop.induct)
  case (1 i n body s)
  show ?case
  proof (cases "i < n")
    case True
    then show ?thesis using 1 by (simp add: forLoop_step)
  next
    case False
    then show ?thesis using 1 by (simp add: forLoop_done)
  qed
qed

lemma stepLoop_done: "n \<le> i \<Longrightarrow> stepLoop i n step body s = Some s"
  by (subst stepLoop.simps) simp

lemma stepLoop_step:
  "i < n \<Longrightarrow> stepLoop i n step body s = Option.bind (body i s) (stepLoop (i + step) n step body)"
  by (subst stepLoop.simps) simp

lemma length_wr [simp]: "length (wr xs i v) = length xs"
  by (simp add: wr_def)

lemma rd_uint: "k < length xs \<Longrightarrow> rd xs (int k) = Fin (of_int (uint (xs ! k)))"
  by (simp add: rd_def)

lemma trunc_of_int [simp]: "trunc (of_int z) = z"
  by (simp add: trunc_def)

text \<open>A loop that stores \<open>f i\<close> at every index \<open>i\<close> of an array of length \<open>n\<close>.\<close>

lemma forLoop_fill:
  fixes f :: "int \<Rightarrow> 'a"
  assumes "length xs = n"
  shows "length (forLoop 0 (int n) (\<lambda>i r. wr r i (f i)) xs) = n
       \<and> (\<forall>k<n. forLoop 0 (int n) (\<lambda>i r. wr r i (f i)) xs ! k = f (int k))"
proof -
  let ?P = "\<lambda>j r. length r = n \<and> (\<forall>k. int k < j \<longrightarrow> r ! k = f (int k))"
  have step: "?P (j + 1) (wr t j (f j))" if "0 \<le> j" "j < int n" "?P j t" for j t
  proof -
    have len: "length t = n" using that by simp
    have "wr t j (f j) ! k = f (int k)" if k: "int k < j + 1" for k
    proof (cases "int k = j")
      case True
      then show ?thesis using len \<open>j < int n\<close> \<open>0 \<le> j\<close> by (auto simp: wr_def)
    next
      case False
      then have "int k < j" using k by simp
      then have "t ! k = f (int k)" using \<open>?P j t\<close> by simp
      moreover have "nat j \<noteq> k" using False \<open>0 \<le> j\<close> by auto
      ultimately show ?thesis using len \<open>j < int n\<close> \<open>0 \<le> j\<close> by (simp add: wr_def)
    qed
    then show ?thesis using len by simp
  qed
  have "?P (int n) (forLoop 0 (int n) (\<lambda>i r. wr r i (f i)) xs)"
    using forLoop_invariant [where P = ?P and i = 0 and n = "int n" and s = xs
        and body = "\<lambda>i r. wr r i (f i)"] step assms by simp
  then show ?thesis by simp
qed

subsection \<open>The Block Aggregator\<close>

lemma blockPixel_count:
  assumes wf: "length (data img) = width img * height img * 4"
    and "0 \<le> ix" "ix < int (width img)" "0 \<le> iy" "iy < int (height img)"
  shows "pixelCount (blockPixel st img e ix iy acc) = pixelCount acc + 1"
proof -
  have "iy * int (width img) \<le> (int (height img) - 1) * int (width img)"
    using assms by (intro mult_right_mono) auto
  then have "(iy * int (width img) + ix) * 4 + 2 < int (width img) * int (height img) * 4"
    using assms by (simp add: algebra_simps)
  then have "\<not> int (length (data img)) \<le> (iy * int (width img) + ix) * 4 + 2"
    using wf by simp
  then show ?thesis
    using assms by (simp add: blockPixel_def Let_def split: option.split)
qed

lemma row_count:
  assumes wf: "length (data img) = width img * height img * 4"
    and "0 \<le> x" "0 \<le> bw" "x + bw \<le> int (width img)" "0 \<le> iy" "iy < int (height img)"
  shows "pixelCount (forLoop 0 bw (\<lambda>dx. blockPixel st img e (x + dx) iy) acc) = pixelCount acc + bw"
proof -
  have step: "pixelCount (blockPixel st img e (x + j) iy t) = pixelCount acc + (j + 1)"
    if "0 \<le> j" "j < bw" "pixelCount t = pixelCount acc + j" for j t
    using that assms by (simp add: blockPixel_count)
  show ?thesis
    using forLoop_invariant [where P = "\<lambda>j t. pixelCount t = pixelCount acc + j" and i = 0
        and n = bw and s = acc and body = "\<lambda>dx. blockPixel st img e (x + dx) iy"]
      step assms(3) by simp
qed

lemma block_count:
  assumes wf: "length (data img) = width img * height img * 4"
    and "0 \<le> x" "0 \<le> bw" "x + bw \<le> int (width img)"
    and "0 \<le> y" "0 \<le> bh" "y + bh \<le> int (height img)"
  shows "pixelCount
           (forLoop 0 bh (\<lambda>dy. forLoop 0 bw (\<lambda>dx. blockPixel st img e (x + dx) (y + dy))) acc)
           = pixelCount acc + bw * bh"
proof -
  have step: "pixelCount (forLoop 0 bw (\<lambda>dx. blockPixel st img e (x + dx) (y + j)) t)
                 = pixelCount acc + bw * (j + 1)"
    if "0 \<le> j" "j < bh" "pixelCount t = pixelCount acc + bw * j" for j t
  proof -
    have "pixelCount (forLoop 0 bw (\<lambda>dx. blockPixel st img e (x + dx) (y + j)) t)
            = pixelCount t + bw"
      using that assms by (intro row_count) auto
    then show ?thesis using that by (simp add: algebra_simps)
  qed
  show ?thesis
    using forLoop_invariant [where P = "\<lambda>j t. pixelCount t = pixelCount acc + bw * j" and i = 0
        and n = bh and s = acc
        and body = "\<lambda>dy. forLoop 0 bw (\<lambda>dx. blockPixel st img e (x + dx) (y + dy))"]
      step assms(6) by simp
qed

text \<open>
  Claim C7. For a well-formed pixel buffer of width \<open>W\<close> and height \<open>H\<close>, a block size
  that is not negative and a block origin \<open>(x, y)\<close> with \<open>0 \<le> x < W\<close> and \<open>0 \<le> y < H\<close>,
  the pixel count of \<open>calculateBlockInfo\<close> is
  \<open>min(blockSize, W - x) * min(blockSize, H - y)\<close>; for a block that lies wholly inside the
  image it is \<open>blockSize\<^sup>2\<close>.
\<close>

theorem calculateBlockInfo_pixelCount:
  assumes "length (data img) = width img * height img * 4"
    and "0 \<le> x" "x < int (width img)" "0 \<le> y" "y < int (height img)"
    and "0 \<le> blockSize st"
  shows "pixelCount (calculateBlockInfo st img x y e)
           = min (blockSize st) (int (width img) - x) * min (blockSize st) (int (height img) - y)
       \<and> (x + blockSize st \<le> int (width img) \<and> y + blockSize st \<le> int (height img)
            \<longrightarrow> pixelCount (calculateBlockInfo st img x y e) = blockSize st * blockSize st)"
proof -
  let ?bw = "min (blockSize st) (int (width img) - x)"
  let ?bh = "min (blockSize st) (int (height img) - y)"
  have "pixelCount (calculateBlockInfo st img x y e) = ?bw * ?bh"
    unfolding calculateBlockInfo_def Let_def
    using assms by (subst block_count) auto
  then show ?thesis by (auto simp: min_def)
qed

text \<open>
  An image of 3 by 2 pixels cut into blocks of 2: the block at \<open>(0, 0)\<close> is whole and has
  4 pixels, the block at \<open>(2, 0)\<close> is cut to one column and has 2.
\<close>

theorem calculateBlockInfo_pixelCount_witness:
  "pixelCount (calculateBlockInfo (defaultSettings\<lparr>blockSize := 2\<rparr>)
      \<lparr>width = 3, height = 2, data = replicate 24 0\<rparr> 0 0 None) = 4
   \<and> pixelCount (calculateBlockInfo (defaultSettings\<lparr>blockSize := 2\<rparr>)
      \<lparr>width = 3, height = 2, data = replicate 24 0\<rparr> 2 0 None) = 2"
  using calculateBlockInfo_pixelCount
      [of "\<lparr>width = 3, height = 2, data = replicate 24 0\<rparr>" 0 0
          "defaultSettings\<lparr>blockSize := 2\<rparr>" None]
    calculateBlockInfo_pixelCount
      [of "\<lparr>width = 3, height = 2, data = replicate 24 0\<rparr>" 2 0
          "defaultSettings\<lparr>blockSize := 2\<rparr>" None]
  by (simp add: defaultSettings_def)

subsection \<open>The Glyph Selector\<close>

lemma floor_ramp: "0 < n \<Longrightarrow> \<lfloor>255 * real n / 256\<rfloor> = int (255 * n div 256)"
proof -
  have "\<lfloor>real_of_int (int (255 * n)) / real_of_int 256\<rfloor> = int (255 * n) div 256"
    by (rule floor_divide_of_int_eq)
  then show ?thesis by (simp add: zdiv_int)
qed

text \<open>
  At the brightest level the ramp index is \<open>\<lfloor>255 * N / 256\<rfloor>\<close>, which never exceeds
  \<open>N - 1\<close>: the bound \<open>Math.min(charIndex, N - 1)\<close> of the source does not bite.
\<close>

lemma rampChar_255:
  assumes "xs = asciiChars st" "xs \<noteq> []"
  shows "rampChar st (Fin 255) = Some (xs ! (255 * length xs div 256))"
proof -
  let ?n = "length xs"
  have n: "0 < ?n" using assms by simp
  have le: "255 * ?n div 256 \<le> ?n - 1" using n by linarith
  have fl: "\<lfloor>255 * real ?n / 256\<rfloor> = int (255 * ?n div 256)" using n by (rule floor_ramp)
  have "\<not> real ?n - 1 < real (255 * ?n div 256)"
    using le n by (metis of_nat_1 of_nat_diff of_nat_le_iff not_less Suc_leI One_nat_def)
  then show ?thesis
    using assms n le fl
    by (simp add: rampChar_def Let_def jsub_def del: of_nat_mult of_nat_numeral)
qed

text \<open>
  Claim C8, as amended. For a block without edge override: if the clamped boosted average
  brightness is 0 the selector returns the space character; for average brightness 255,
  brightness multiplier 1.0 and a non-empty ramp of length \<open>N\<close> it returns
  \<open>ramp[\<lfloor>255 * N / 256\<rfloor>]\<close>, which is \<open>ramp[N - 1]\<close> when \<open>N \<le> 256\<close>.
\<close>

theorem selectAsciiChar_ramp_ends:
  assumes "edgeOverride st b = None"
  shows "(clampedBrightness st b = Fin 0 \<longrightarrow> selectAsciiChar st b = Some CHR '' '')
       \<and> (avgBrightness b = Fin 255 \<and> brightness st = 1 \<and> asciiChars st \<noteq> [] \<longrightarrow>
            selectAsciiChar st b = Some (asciiChars st ! (255 * length (asciiChars st) div 256)))
       \<and> (avgBrightness b = Fin 255 \<and> brightness st = 1 \<and> asciiChars st \<noteq> []
            \<and> length (asciiChars st) \<le> 256 \<longrightarrow>
            selectAsciiChar st b = Some (asciiChars st ! (length (asciiChars st) - 1)))"
proof -
  have sel: "selectAsciiChar st b = rampChar st (clampedBrightness st b)"
    using assms by (simp add: selectAsciiChar_def)
  have dark: "clampedBrightness st b = Fin 0 \<Longrightarrow> selectAsciiChar st b = Some CHR '' ''"
    using sel by (simp add: rampChar_def)
  have bright: "selectAsciiChar st b = Some (asciiChars st ! (255 * length (asciiChars st) div 256))"
    if "avgBrightness b = Fin 255" "brightness st = 1" "asciiChars st \<noteq> []"
  proof -
    have "clampedBrightness st b = Fin 255"
      using that by (simp add: clampedBrightness_def)
    then show ?thesis using sel that rampChar_255 [of "asciiChars st" st] by simp
  qed
  have last: "255 * n div 256 = n - 1" if "0 < n" "n \<le> 256" for n :: nat
    using that by linarith
  show ?thesis using dark bright last [of "length (asciiChars st)"] by auto
qed

text \<open>
  With the default settings a block of 64 black pixels gives the space and a block of 64
  white pixels gives \<open>@\<close>, the last of the ten glyphs of the default ramp.
\<close>

theorem selectAsciiChar_ramp_ends_witness:
  "selectAsciiChar defaultSettings (blackBlock 64) = Some CHR '' ''
   \<and> selectAsciiChar defaultSettings ((blackBlock 64)\<lparr>sumBrightness := Fin 16320\<rparr>)
       = Some CHR ''@''"
  using selectAsciiChar_ramp_ends [of defaultSettings "blackBlock 64"]
    selectAsciiChar_ramp_ends
      [of defaultSettings "(blackBlock 64)\<lparr>sumBrightness := Fin 16320\<rparr>"]
  by (simp add: defaultSettings_def blackBlock_def edgeOverride_def clampedBrightness_def
      avgBrightness_def)

text \<open>
  Claim C8 as the specification states it, for every ramp length, fails for a ramp of 257
  glyphs: the index is \<open>\<lfloor>255 * 257 / 256\<rfloor> = 255\<close>, so the selector returns the glyph at
  255 and never the last one, at 256.
\<close>

theorem selectAsciiChar_last_glyph_counterexample:
  "edgeOverride (defaultSettings\<lparr>asciiChars := replicate 256 CHR ''.'' @ ''@''\<rparr>)
      ((blackBlock 1)\<lparr>sumBrightness := Fin 255\<rparr>) = None
   \<and> avgBrightness ((blackBlock 1)\<lparr>sumBrightness := Fin 255\<rparr>) = Fin 255
   \<and> brightness (defaultSettings\<lparr>asciiChars := replicate 256 CHR ''.'' @ ''@''\<rparr>) = 1
   \<and> length (asciiChars (defaultSettings\<lparr>asciiChars := replicate 256 CHR ''.'' @ ''@''\<rparr>))
       = 257
   \<and> asciiChars (defaultSettings\<lparr>asciiChars := replicate 256 CHR ''.'' @ ''@''\<rparr>) ! (257 - 1)
       = CHR ''@''
   \<and> selectAsciiChar (defaultSettings\<lparr>asciiChars := replicate 256 CHR ''.'' @ ''@''\<rparr>)
       ((blackBlock 1)\<lparr>sumBrightness := Fin 255\<rparr>) = Some CHR ''.''"
  by (simp add: defaultSettings_def blackBlock_def edgeOverride_def avgBrightness_def
      selectAsciiChar_def clampedBrightness_def rampChar_def jsub_def nth_append)

subsection \<open>The edge glyph\<close>

lemma bucket_range:
  fixes a :: real
  assumes "0 \<le> a"
  shows "0 \<le> \<lfloor>(a - 180 * of_int (trunc (a / 180))) / 45\<rfloor>"
    and "\<lfloor>(a - 180 * of_int (trunc (a / 180))) / 45\<rfloor> \<le> 3"
proof -
  let ?q = "\<lfloor>a / 180\<rfloor>"
  have t: "trunc (a / 180) = ?q" using assms by (simp add: trunc_def)
  have "of_int ?q \<le> a / 180" "a / 180 < of_int ?q + 1" by linarith+
  then have r: "0 \<le> a - 180 * of_int ?q" "a - 180 * of_int ?q < 180"
    by (simp_all add: field_simps)
  show "0 \<le> \<lfloor>(a - 180 * of_int (trunc (a / 180))) / 45\<rfloor>"
    using r t by simp
  have "(a - 180 * of_int ?q) / 45 < 4" using r by simp
  then have "\<lfloor>(a - 180 * of_int ?q) / 45\<rfloor> < 4" by (simp add: floor_less_iff)
  then show "\<lfloor>(a - 180 * of_int (trunc (a / 180))) / 45\<rfloor> \<le> 3" using t by simp
qed

text \<open>From \<open>-\<pi>\<close> upwards the angle in degrees is not negative, and the index is one of 0 to 3.\<close>

lemma edgeIndex_range:
  assumes "- pi \<le> d"
  obtains k where "0 \<le> k" "k \<le> 3" "edgeIndex (Fin d) = Fin (of_int k)"
proof -
  let ?a = "(d + pi) * (180 / pi) + 22.5"
  let ?k = "\<lfloor>(?a - 180 * of_int (trunc (?a / 180))) / 45\<rfloor>"
  have "0 \<le> (d + pi) * (180 / pi)" using assms by simp
  then have a: "0 \<le> ?a" by simp
  have "0 \<le> ?k" "?k \<le> 3" using a by (rule bucket_range)+
  moreover have "edgeIndex (Fin d) = Fin (of_int ?k)"
    by (simp add: edgeIndex_def Let_def)
  ultimately show ?thesis using that by blast
qed

lemma jsIndex_edgeTable:
  assumes "0 \<le> k" "k \<le> 3"
  shows "jsIndex edgeTable (Fin (of_int k)) = Some (edgeTable ! nat k)"
    and "jsIndex (take 4 edgeTable) (Fin (of_int k)) = Some (edgeTable ! nat k)"
    and "edgeTable ! nat k \<in> {CHR ''-'', CHR 0x5C, CHR ''|'', CHR ''/''}"
proof -
  have k: "k = 0 \<or> k = 1 \<or> k = 2 \<or> k = 3" using assms by linarith
  show "jsIndex edgeTable (Fin (of_int k)) = Some (edgeTable ! nat k)"
    using assms by (simp add: edgeTable_def)
  show "jsIndex (take 4 edgeTable) (Fin (of_int k)) = Some (edgeTable ! nat k)"
    using k by (auto simp: edgeTable_def)
  show "edgeTable ! nat k \<in> {CHR ''-'', CHR 0x5C, CHR ''|'', CHR ''/''}"
    using k by (auto simp: edgeTable_def)
qed

lemma getEdgeChar_range:
  assumes "- pi \<le> d" "50 \<le> m"
  obtains k where "0 \<le> k" "k \<le> 3" "edgeIndex (Fin d) = Fin (of_int k)"
    "getEdgeChar (Fin m) (Fin d) = Some (edgeTable ! nat k)"
proof -
  obtain k where k: "0 \<le> k" "k \<le> 3" "edgeIndex (Fin d) = Fin (of_int k)"
    using assms(1) by (rule edgeIndex_range)
  have "getEdgeChar (Fin m) (Fin d) = Some (edgeTable ! nat k)"
    using assms(2) k(3) jsIndex_edgeTable(1) [OF k(1,2)] by (simp add: getEdgeChar_def)
  then show ?thesis using that k by blast
qed

text \<open>
  Claim C10. For a gradient direction in \<open>(-\<pi>, \<pi>]\<close> and a magnitude of at least 50 the
  index \<open>\<lfloor>((angle + 22.5) mod 180) / 45\<rfloor>\<close> is one of 0, 1, 2, 3; the lookup in the table of
  eight glyphs is in bounds and reads one of its first four entries, and the glyph
  returned is one of \<open>-\<close>, \<open>\\\<close>, \<open>|\<close>, \<open>/\<close>.
\<close>

theorem getEdgeChar_index_in_bounds:
  assumes "- pi < d" "d \<le> pi" "50 \<le> m"
  shows "edgeIndex (Fin d) \<in> {Fin 0, Fin 1, Fin 2, Fin 3}
       \<and> getEdgeChar (Fin m) (Fin d) = jsIndex (take 4 edgeTable) (edgeIndex (Fin d))
       \<and> getEdgeChar (Fin m) (Fin d)
            \<in> {Some CHR ''-'', Some CHR 0x5C, Some CHR ''|'', Some CHR ''/''}"
proof -
  obtain k where k: "0 \<le> k" "k \<le> 3" "edgeIndex (Fin d) = Fin (of_int k)"
    "getEdgeChar (Fin m) (Fin d) = Some (edgeTable ! nat k)"
    using assms getEdgeChar_range [of d m] by auto
  have "k = 0 \<or> k = 1 \<or> k = 2 \<or> k = 3" using k by linarith
  then have "edgeIndex (Fin d) \<in> {Fin 0, Fin 1, Fin 2, Fin 3}"
    using k(3) by auto
  then show ?thesis
    using k(3,4) jsIndex_edgeTable(2,3) [OF k(1,2)] by simp
qed

text \<open>Direction 0 at the threshold: 180 degrees, index 0, the glyph \<open>-\<close>.\<close>

theorem getEdgeChar_index_in_bounds_witness:
  "edgeIndex (Fin 0) \<in> {Fin 0, Fin 1, Fin 2, Fin 3}
   \<and> getEdgeChar (Fin 50) (Fin 0)
       \<in> {Some CHR ''-'', Some CHR 0x5C, Some CHR ''|'', Some CHR ''/''}"
proof -
  have "- pi < (0::real)" "(0::real) \<le> pi" "(50::real) \<le> 50" by simp_all
  from getEdgeChar_index_in_bounds [OF this] show ?thesis by blast
qed

text \<open>
  Claim C9. With \<open>detectEdges\<close> on, the selector passes the block's average gradient
  magnitude and direction to \<open>getEdgeChar\<close>. Below the threshold 50 there is no override
  and the glyph is the one of the brightness ramp; from 50 upwards the directional glyph
  is returned, before the ramp is looked at. The block has a positive pixel count and its
  average direction is an angle from \<open>-\<pi>\<close> upwards, as every average of \<open>atan2\<close> values is.
\<close>

theorem selectAsciiChar_edge_priority:
  assumes "detectEdges st" "0 < pixelCount b" "sumMag b = Fin m" "sumDir b = Fin d"
    and "- pi \<le> d / of_int (pixelCount b)"
  shows "edgeOverride st b
           = getEdgeChar (Fin (m / of_int (pixelCount b))) (Fin (d / of_int (pixelCount b)))
       \<and> (m / of_int (pixelCount b) < 50 \<longrightarrow>
            edgeOverride st b = None
            \<and> selectAsciiChar st b = rampChar st (clampedBrightness st b))
       \<and> (50 \<le> m / of_int (pixelCount b) \<longrightarrow>
            edgeOverride st b \<noteq> None \<and> selectAsciiChar st b = edgeOverride st b
            \<and> selectAsciiChar st b
                \<in> {Some CHR ''-'', Some CHR 0x5C, Some CHR ''|'', Some CHR ''/''})"
proof -
  let ?am = "m / of_int (pixelCount b)" and ?ad = "d / of_int (pixelCount b)"
  have ov: "edgeOverride st b = getEdgeChar (Fin ?am) (Fin ?ad)"
    using assms by (simp add: edgeOverride_def)
  have low: "getEdgeChar (Fin ?am) (Fin ?ad) = None" if "?am < 50"
    using that by (simp add: getEdgeChar_def)
  have high: "\<exists>k. 0 \<le> k \<and> k \<le> 3 \<and> getEdgeChar (Fin ?am) (Fin ?ad) = Some (edgeTable ! nat k)"
    if "50 \<le> ?am"
    using that assms(5) getEdgeChar_range [of ?ad ?am] by metis
  have glyph: "getEdgeChar (Fin ?am) (Fin ?ad)
                 \<in> {Some CHR ''-'', Some CHR 0x5C, Some CHR ''|'', Some CHR ''/''}"
    if am: "50 \<le> ?am"
  proof -
    obtain k where k: "0 \<le> k" "k \<le> 3"
      "getEdgeChar (Fin ?am) (Fin ?ad) = Some (edgeTable ! nat k)"
      using high [OF am] by blast
    show ?thesis using jsIndex_edgeTable(3) [OF k(1,2)] k(3) by simp
  qed
  have sel: "selectAsciiChar st b
               = (case getEdgeChar (Fin ?am) (Fin ?ad) of
                    Some edgeChar \<Rightarrow> Some edgeChar
                  | None \<Rightarrow> rampChar st (clampedBrightness st b))"
    using ov by (simp add: selectAsciiChar_def)
  have "selectAsciiChar st b = rampChar st (clampedBrightness st b)" if "?am < 50"
    using sel low [OF that] by simp
  moreover have "getEdgeChar (Fin ?am) (Fin ?ad) \<noteq> None
      \<and> selectAsciiChar st b = getEdgeChar (Fin ?am) (Fin ?ad)" if "50 \<le> ?am"
    using sel high [OF that] by auto
  ultimately show ?thesis
    using ov low glyph by simp
qed

text \<open>
  Four pixels of direction 0: with an average magnitude of 60 the glyph is \<open>-\<close>, though
  the block is black; with an average magnitude of 10 it is the space of the ramp.
\<close>

lemma getEdgeChar_horizontal: "getEdgeChar (Fin 60) (Fin 0) = Some CHR ''-''"
proof -
  have "\<lfloor>(405 / 2 :: real) / 180\<rfloor> = 1" by linarith
  then have "trunc ((405 / 2) / 180) = 1" by (simp add: trunc_def)
  moreover have "\<lfloor>(1 / 2 :: real)\<rfloor> = 0" by linarith
  ultimately have "edgeIndex (Fin 0) = Fin 0"
    by (simp add: edgeIndex_def Let_def)
  then show ?thesis by (simp add: getEdgeChar_def edgeTable_def)
qed

theorem selectAsciiChar_edge_priority_witness:
  "selectAsciiChar (defaultSettings\<lparr>detectEdges := True\<rparr>)
      ((blackBlock 4)\<lparr>sumMag := Fin 240, sumDir := Fin 0\<rparr>) = Some CHR ''-''
   \<and> selectAsciiChar (defaultSettings\<lparr>detectEdges := True\<rparr>)
      ((blackBlock 4)\<lparr>sumMag := Fin 40, sumDir := Fin 0\<rparr>) = Some CHR '' ''"
  using selectAsciiChar_edge_priority
      [of "defaultSettings\<lparr>detectEdges := True\<rparr>"
          "(blackBlock 4)\<lparr>sumMag := Fin 240, sumDir := Fin 0\<rparr>" 240 0]
    selectAsciiChar_edge_priority
      [of "defaultSettings\<lparr>detectEdges := True\<rparr>"
          "(blackBlock 4)\<lparr>sumMag := Fin 40, sumDir := Fin 0\<rparr>" 40 0]
    getEdgeChar_horizontal
  by (simp add: defaultSettings_def blackBlock_def clampedBrightness_def avgBrightness_def
      rampChar_def)

subsection \<open>The Histogram Equalizer\<close>

text \<open>Every byte of the result is the stretch of the byte of the input at the same index.\<close>

lemma autoBrightnessContrast_nth:
  assumes "i < length (data img)"
  shows "data (autoBrightnessContrast img) ! i
           = ToUint8Clamp (jadd (jmul (Fin (of_int (uint (data img ! i)))) (stretchAlpha img))
                             (stretchBeta img))"
proof -
  have "data (autoBrightnessContrast img) ! i
          = ToUint8Clamp (jadd (jmul (rd (data img) (int i)) (stretchAlpha img)) (stretchBeta img))"
    using assms forLoop_fill [of "replicate (length (data img)) 0" "length (data img)"
        "\<lambda>i. ToUint8Clamp (jadd (jmul (rd (data img) i) (stretchAlpha img)) (stretchBeta img))"]
    by (simp add: autoBrightnessContrast_def Let_def)
  then show ?thesis using assms by (simp add: rd_def)
qed

lemma autoBrightnessContrast_length:
  "length (data (autoBrightnessContrast img)) = length (data img)"
  using forLoop_fill [of "replicate (length (data img)) 0" "length (data img)"
        "\<lambda>i. ToUint8Clamp (jadd (jmul (rd (data img) i) (stretchAlpha img)) (stretchBeta img))"]
  by (simp add: autoBrightnessContrast_def Let_def)









lemma minGrayLoop_ge: "m \<le> minGrayLoop a c m"
proof (induction a c m rule: minGrayLoop.induct)
  case (1 a c m)
  show ?case
  proof (cases "0 \<le> m \<and> m < int (length a) \<and> a ! nat m < c")
    case True
    then have "minGrayLoop a c m = minGrayLoop a c (m + 1)" by (subst minGrayLoop.simps) simp
    then show ?thesis using "1.IH" True by simp
  next
    case False
    then show ?thesis by (subst minGrayLoop.simps) auto
  qed
qed

text \<open>With an infinite \<open>alpha\<close> every sample is \<open>NaN\<close>, which the array stores as 0.\<close>

lemma degenerate_sample:
  assumes "beta = NaN \<or> beta = NInf" "0 \<le> v"
  shows "ToUint8Clamp (jadd (jmul (Fin v) PInf) beta) = 0"
proof (cases "v = 0")
  case True
  then show ?thesis by simp
next
  case False
  then have "jmul (Fin v) PInf = PInf" using assms by simp
  then show ?thesis using assms by auto
qed

text \<open>
  Claim C3, as amended. The source has no guard for the degenerate case. When the clipping
  bounds coincide, \<open>alpha\<close> is \<open>255 / 0\<close>, which is \<open>+Infinity\<close>, \<open>beta\<close> is \<open>NaN\<close> or
  \<open>-Infinity\<close>, every sample \<open>in * alpha + beta\<close> is \<open>NaN\<close>, and the result, which has the
  length of the input, holds 0 in every byte; no error is raised.
\<close>

theorem autoBrightnessContrast_degenerate:
  assumes "fst (clipBounds img) = snd (clipBounds img)"
  shows "stretchAlpha img = PInf
       \<and> (stretchBeta img = NaN \<or> stretchBeta img = NInf)
       \<and> data (autoBrightnessContrast img) = replicate (length (data img)) 0"
proof -
  obtain lo hi where b: "clipBounds img = (lo, hi)" by (cases "clipBounds img")
  then have eq: "hi = lo" using assms by simp
  have al: "stretchAlpha img = PInf" using b eq by (simp add: stretchAlpha_def)
  have "0 \<le> lo" using b minGrayLoop_ge [of 0] by (auto simp: clipBounds_def Let_def)
  then have be: "stretchBeta img = NaN \<or> stretchBeta img = NInf"
    using b al by (cases "lo = 0") (simp_all add: stretchBeta_def)
  have "data (autoBrightnessContrast img) ! i = replicate (length (data img)) 0 ! i"
    if "i < length (data img)" for i
  proof -
    have "ToUint8Clamp (jadd (jmul (Fin (of_int (uint (data img ! i)))) PInf) (stretchBeta img)) = 0"
      using be by (rule degenerate_sample) (simp only: of_int_0_le_iff uint_ge_0)
    then show ?thesis using that al by (simp only: autoBrightnessContrast_nth nth_replicate)
  qed
  then have "data (autoBrightnessContrast img) = replicate (length (data img)) 0"
    by (intro nth_equalityI) (simp_all add: autoBrightnessContrast_length)
  then show ?thesis using al be by simp
qed

lemma clipBounds_degenerateImage: "clipBounds degenerateImage = (0, 0)"
  by code_simp

text \<open>The two opaque pixels of \<open>degenerateImage\<close> come out as eight zero bytes.\<close>

theorem autoBrightnessContrast_degenerate_witness:
  "stretchAlpha degenerateImage = PInf
   \<and> data (autoBrightnessContrast degenerateImage) = [0, 0, 0, 0, 0, 0, 0, 0]"
  using autoBrightnessContrast_degenerate [of degenerateImage] clipBounds_degenerateImage
  by (simp add: degenerateImage_def)

text \<open>
  Claim C3 as the specification states it fails on these two pixels: the bounds coincide,
  \<open>autoBrightnessContrast\<close> returns an image and not an error, and \<open>alpha\<close> is infinite.
\<close>

theorem autoBrightnessContrast_unguarded_counterexample:
  "fst (clipBounds degenerateImage) = snd (clipBounds degenerateImage)
   \<and> stretchAlpha degenerateImage = PInf
   \<and> stretchBeta degenerateImage = NaN"
  by code_simp

subsection \<open>The difference of Gaussians\<close>

text \<open>A sigma that is not negative gives a kernel, and the blur an array of \<open>W * H\<close> bytes.\<close>

lemma gaussianKernel_returns: "0 \<le> sigma \<Longrightarrow> \<exists>k. gaussianKernel sigma = Inr k"
  by (simp add: gaussianKernel_def Let_def split: prod.split)

lemma applyGaussianBlur_returns:
  "0 \<le> sigma \<Longrightarrow> \<exists>b. applyGaussianBlur img sigma = Inr b"
  using gaussianKernel_returns [of sigma]
  by (auto simp: applyGaussianBlur_def Let_def)

lemma applyGaussianBlur_length:
  assumes "applyGaussianBlur img sigma = Inr b"
  shows "length b = width img * height img"
proof -
  have row: "length (forLoop 0 w (\<lambda>x r. wr r (g x) (f x)) t) = length t"
    for w t and f :: "int \<Rightarrow> u8" and g :: "int \<Rightarrow> int"
    by (rule forLoop_preserves [where Q = "\<lambda>r. length r = length t"]) simp_all
  have grid: "length (forLoop 0 h (\<lambda>y. forLoop 0 w (\<lambda>x r. wr r (g y x) (f y x))) t) = length t"
    for h w t and f :: "int \<Rightarrow> int \<Rightarrow> u8" and g :: "int \<Rightarrow> int \<Rightarrow> int"
    by (rule forLoop_preserves [where Q = "\<lambda>r. length r = length t"]) (simp_all add: row)
  show ?thesis
    using assms
    by (auto simp: applyGaussianBlur_def Let_def grid nat_mult_distrib split: sum.splits)
qed

lemma dogSample_Fin:
  "dogSample (Fin (of_int a)) (Fin (of_int b)) = Fin (of_int (max 0 (min 255 (a - b + 128))))"
  by (simp add: dogSample_def jsub_def min_def max_def)

text \<open>The clamped difference is a byte already, so the store into the array keeps it.\<close>

lemma stored_sample:
  fixes a b :: u8
  shows "uint (ToUint8 (dogSample (Fin (of_int (uint a))) (Fin (of_int (uint b)))))
           = max 0 (min 255 (uint a - uint b + 128))"
proof -
  let ?z = "max 0 (min 255 (uint a - uint b + 128))"
  have "0 \<le> ?z" "?z < 256" by simp_all
  then have "uint (word_of_int ?z :: u8) = ?z" by (simp add: uint_word_of_int)
  then show ?thesis by (simp only: dogSample_Fin ToUint8.simps trunc_of_int)
qed

text \<open>
  Claim C6. For every image and every pair of positive sigmas both blurs and the difference
  of Gaussians return arrays of \<open>W * H\<close> bytes, and each sample of the difference is the
  sample of the first blur minus that of the second, plus 128, clamped to \<open>[0, 255]\<close>; so
  every sample lies in \<open>[0, 255]\<close>.
\<close>

theorem differenceOfGaussians_samples:
  assumes "0 < sigma1 st" "0 < sigma2 st"
  shows "\<exists>blur1 blur2 result.
           applyGaussianBlur img (sigma1 st) = Inr blur1
         \<and> applyGaussianBlur img (sigma2 st) = Inr blur2
         \<and> differenceOfGaussians st img = Inr result
         \<and> length result = width img * height img
         \<and> (\<forall>i < width img * height img.
               uint (result ! i) = max 0 (min 255 (uint (blur1 ! i) - uint (blur2 ! i) + 128))
             \<and> 0 \<le> uint (result ! i) \<and> uint (result ! i) \<le> 255)"
proof -
  let ?n = "width img * height img"
  obtain blur1 where b1: "applyGaussianBlur img (sigma1 st) = Inr blur1"
    using applyGaussianBlur_returns [of "sigma1 st" img] assms by auto
  obtain blur2 where b2: "applyGaussianBlur img (sigma2 st) = Inr blur2"
    using applyGaussianBlur_returns [of "sigma2 st" img] assms by auto
  have l1: "length blur1 = ?n" using b1 by (rule applyGaussianBlur_length)
  have l2: "length blur2 = ?n" using b2 by (rule applyGaussianBlur_length)
  let ?f = "\<lambda>i. ToUint8 (dogSample (rd blur1 i) (rd blur2 i))"
  let ?r = "forLoop 0 (int ?n) (\<lambda>i result. wr result i (?f i)) (replicate ?n 0)"
  have d: "differenceOfGaussians st img = Inr ?r"
    using b1 b2 by (simp add: differenceOfGaussians_def)
  have fill: "length ?r = ?n" "\<And>k. k < ?n \<Longrightarrow> ?r ! k = ?f (int k)"
    using forLoop_fill [of "replicate ?n 0" ?n ?f] by simp_all
  have "uint (?r ! i) = max 0 (min 255 (uint (blur1 ! i) - uint (blur2 ! i) + 128))"
    if "i < ?n" for i
    using that l1 l2 by (simp only: fill(2) rd_uint stored_sample)
  then have "\<forall>i < ?n. uint (?r ! i) = max 0 (min 255 (uint (blur1 ! i) - uint (blur2 ! i) + 128))
             \<and> 0 \<le> uint (?r ! i) \<and> uint (?r ! i) \<le> 255"
    by simp
  then show ?thesis using b1 b2 d fill(1) by blast
qed

text \<open>The default sigmas 0.5 and 1.0 on the black image: a field of 256 samples.\<close>

theorem differenceOfGaussians_samples_witness:
  "\<exists>result. differenceOfGaussians defaultSettings (blackImage 255) = Inr result
      \<and> length result = 256"
proof -
  have "0 < sigma1 defaultSettings" "0 < sigma2 defaultSettings"
    by (simp_all add: defaultSettings_def)
  from differenceOfGaussians_samples [OF this, of "blackImage 255"]
  show ?thesis by (auto simp: blackImage_def)
qed

subsection \<open>The gradient sums of a block\<close>

text \<open>
  The blocks that \<open>generate\<close> hands to the selector when \<open>detectEdges\<close> is on have finite
  gradient sums and an average direction in \<open>[-\<pi>, \<pi>]\<close>: \<open>atan2\<close> is an angle in that
  range, the Sobel loop reads inside the field and stores such angles, and the block loops
  add one of them per pixel.
\<close>

lemma atan2_bounds: "- pi \<le> atan2 y x \<and> atan2 y x \<le> pi"
proof -
  have a: "- (pi / 2) < arctan (y / x)" "arctan (y / x) < pi / 2"
    by (rule arctan_lbound, rule arctan_ubound)
  have neg: "arctan (y / x) \<le> 0" if "x < 0" "0 \<le> y"
  proof -
    have "y / x \<le> 0" using that by (simp add: divide_nonneg_neg)
    then show ?thesis by (simp add: arctan_le_zero_iff)
  qed
  have pos: "0 \<le> arctan (y / x)" if "x < 0" "y < 0"
  proof -
    have "0 \<le> y / x" using that by (simp add: divide_nonpos_neg)
    then show ?thesis by (simp add: zero_le_arctan_iff)
  qed
  show ?thesis
    using a neg pos pi_gt_zero by (auto simp: atan2_def)
qed

lemma cell_index:
  fixes r c w h :: int
  assumes "0 \<le> r" "r < h" "0 \<le> c" "c < w"
  shows "0 \<le> r * w + c" "r * w + c < w * h"
proof -
  show "0 \<le> r * w + c" using assms by simp
  have "r * w \<le> (h - 1) * w" using assms by (intro mult_right_mono) auto
  then show "r * w + c < w * h" using assms by (simp add: algebra_simps)
qed

text \<open>The two gradient sums at an inner pixel are finite, nine terms of at most 510 each.\<close>

lemma sobel_weight:
  assumes "0 \<le> i" "i < 3" "0 \<le> j" "j < 3"
  shows "\<bar>Gx ! nat i ! nat j\<bar> \<le> 2" "\<bar>Gy ! nat i ! nat j\<bar> \<le> 2"
proof -
  have "i = 0 \<or> i = 1 \<or> i = 2" "j = 0 \<or> j = 1 \<or> j = 2" using assms by linarith+
  then show "\<bar>Gx ! nat i ! nat j\<bar> \<le> 2" "\<bar>Gy ! nat i ! nat j\<bar> \<le> 2"
    by (auto simp: Gx_def Gy_def)
qed

lemma sobel_term:
  fixes c :: int and p :: u8
  assumes "\<bar>c\<bar> \<le> 2"
  shows "\<bar>real_of_int c * real_of_int (uint p)\<bar> \<le> 510"
proof -
  have p: "0 \<le> uint p" "uint p \<le> 255" using uint_bounded [of p] by simp_all
  then have "\<bar>c\<bar> * \<bar>uint p\<bar> \<le> 2 * 255"
    using assms by (intro mult_mono) simp_all
  then have "\<bar>c * uint p\<bar> \<le> 2 * 255" by (simp only: abs_mult)
  then have "\<bar>real_of_int (c * uint p)\<bar> \<le> 510" by linarith
  then show ?thesis by simp
qed

lemma sobelAt_finite:
  assumes len: "int (length g) = w * h"
    and "1 \<le> y" "y < h - 1" "1 \<le> x" "x < w - 1"
  shows "\<exists>a b. sobelAt g w x y = (Fin a, Fin b) \<and> \<bar>a\<bar> \<le> 4590 \<and> \<bar>b\<bar> \<le> 4590"
proof -
  let ?P = "\<lambda>(n::int) (t::jsnum \<times> jsnum).
      \<exists>a b. t = (Fin a, Fin b) \<and> \<bar>a\<bar> \<le> 510 * of_int n \<and> \<bar>b\<bar> \<le> 510 * of_int n"
  let ?cell = "\<lambda>i j (gx, gy).
         let pixel = rd g ((y + i - 1) * w + (x + j - 1))
         in (jadd gx (jmul (Fin (of_int (Gx ! nat i ! nat j))) pixel),
             jadd gy (jmul (Fin (of_int (Gy ! nat i ! nat j))) pixel))"
  have cell: "?P (3 * i + (j + 1)) (?cell i j t)"
    if ij: "0 \<le> i" "i < 3" "0 \<le> j" "j < 3" and t: "?P (3 * i + j) t" for i j t
  proof -
    let ?k = "(y + i - 1) * w + (x + j - 1)"
    have "0 \<le> ?k" "?k < w * h"
      using ij assms cell_index [of "y + i - 1" h "x + j - 1" w] by simp_all
    then have px: "rd g ?k = Fin (of_int (uint (g ! nat ?k)))"
      using len by (simp add: rd_def)
    obtain a b where ab: "t = (Fin a, Fin b)" "\<bar>a\<bar> \<le> 510 * of_int (3 * i + j)"
      "\<bar>b\<bar> \<le> 510 * of_int (3 * i + j)"
      using t by blast
    have "\<bar>real_of_int (Gx ! nat i ! nat j) * real_of_int (uint (g ! nat ?k))\<bar> \<le> 510"
      "\<bar>real_of_int (Gy ! nat i ! nat j) * real_of_int (uint (g ! nat ?k))\<bar> \<le> 510"
      using sobel_weight [OF ij] by (intro sobel_term; simp)+
    then have
      "\<bar>a + real_of_int (Gx ! nat i ! nat j) * real_of_int (uint (g ! nat ?k))\<bar>
         \<le> 510 * of_int (3 * i + (j + 1))"
      "\<bar>b + real_of_int (Gy ! nat i ! nat j) * real_of_int (uint (g ! nat ?k))\<bar>
         \<le> 510 * of_int (3 * i + (j + 1))"
      using ab(2,3) by (simp_all add: algebra_simps abs_le_iff)
    then show ?thesis
      unfolding ab(1) px by (simp only: Let_def prod.case jadd.simps jmul.simps) blast
  qed
  have row: "?P (3 * (i + 1)) (forLoop 0 3 (?cell i) t)"
    if i: "0 \<le> i" "i < 3" and t: "?P (3 * i) t" for i t
  proof -
    have "(\<lambda>j u. ?P (3 * i + j) u) 3 (forLoop 0 3 (?cell i) t)"
    proof (rule forLoop_invariant [where P = "\<lambda>j u. ?P (3 * i + j) u"])
      show "?P (3 * i + 0) t" using t by simp
      show "(0::int) \<le> 3" by simp
      show "?P (3 * i + (j + 1)) (?cell i j u)" if "0 \<le> j" "j < 3" "?P (3 * i + j) u" for j u
        using cell [OF i that] .
    qed
    then show ?thesis by (simp add: algebra_simps)
  qed
  have "(\<lambda>i u. ?P (3 * i) u) 3 (forLoop 0 3 (\<lambda>i. forLoop 0 3 (?cell i)) (Fin 0, Fin 0))"
  proof (rule forLoop_invariant [where P = "\<lambda>i u. ?P (3 * i) u"])
    show "?P (3 * 0) (Fin 0, Fin 0)" by simp
    show "(0::int) \<le> 3" by simp
    show "?P (3 * (i + 1)) (forLoop 0 3 (?cell i) t)" if "0 \<le> i" "i < 3" "?P (3 * i) t" for i t
      using row [OF that] .
  qed
  then show ?thesis by (simp add: sobelAt_def)
qed

lemma wr_all: "list_all R xs \<Longrightarrow> R v \<Longrightarrow> list_all R (wr xs i v)"
  using set_update_subset_insert [of xs "nat i" v] by (auto simp: wr_def list_all_iff)

lemma applySobelFilter_edgeOk:
  assumes len: "int (length g) = w * h" and "0 \<le> w" "0 \<le> h"
  shows "edgeOk (nat (w * h)) (applySobelFilter g w h)"
proof -
  let ?n = "nat (w * h)"
  let ?cell = "\<lambda>y x e.
             let (gx, gy) = sobelAt g w x y
             in \<lparr>magnitude =
                   wr (magnitude e) (y * w + x)
                     (ToFloat32 (jsqrt (jadd (jmul gx gx) (jmul gy gy)))),
                 direction = wr (direction e) (y * w + x) (ToFloat32 (jatan2 gy gx))\<rparr>"
  let ?P = "\<lambda>(j::int) e. edgeOk ?n e"
  have cell: "edgeOk ?n (?cell y x e)"
    if yx: "1 \<le> y" "y < h - 1" "1 \<le> x" "x < w - 1" and ok: "edgeOk ?n e" for y x e
  proof -
    obtain a b where ab: "sobelAt g w x y = (Fin a, Fin b)" and bd: "\<bar>a\<bar> \<le> 4590" "\<bar>b\<bar> \<le> 4590"
      using sobelAt_finite [OF len yx] by blast
    have "sqrt (a * a + b * b) \<le> \<bar>a\<bar> + \<bar>b\<bar>"
      using sqrt_sum_squares_le_sum_abs [of a b] by (simp add: power2_eq_square)
    then have "sqrt (a * a + b * b) \<le> 9180" using bd by linarith
    then have "isFin (ToFloat32 (Fin (sqrt (a * a + b * b))))" by simp
    moreover have "jsqrt (jadd (jmul (Fin a) (Fin a)) (jmul (Fin b) (Fin b)))
                     = Fin (sqrt (a * a + b * b))"
      by (simp add: not_less)
    ultimately have "list_all isFin
        (wr (magnitude e) (y * w + x)
           (ToFloat32 (jsqrt (jadd (jmul (Fin a) (Fin a)) (jmul (Fin b) (Fin b))))))"
      using ok by (intro wr_all) (simp_all only: edgeOk_def)
    moreover have "isAngle (ToFloat32 (Fin (atan2 b a)))"
      using atan2_bounds [of b a] pi_gt_zero pi_less_4 by simp
    then have "list_all isAngle (wr (direction e) (y * w + x) (ToFloat32 (jatan2 (Fin b) (Fin a))))"
      using ok by (intro wr_all) (simp_all only: edgeOk_def jatan2.simps)
    ultimately show ?thesis
      using ok by (simp add: ab edgeOk_def del: ToFloat32.simps jsqrt.simps jatan2.simps jadd.simps jmul.simps)
  qed
  have row: "edgeOk ?n (forLoop 1 (w - 1) (?cell y) e)"
    if "1 \<le> y" "y < h - 1" "edgeOk ?n e" for y e
  proof (cases "1 \<le> w - 1")
    case True
    show ?thesis
    proof (rule forLoop_invariant [where P = ?P])
      show "edgeOk ?n e" by fact
      show "1 \<le> w - 1" by fact
      show "edgeOk ?n (?cell y x t)" if "1 \<le> x" "x < w - 1" "edgeOk ?n t" for x t
        using cell [OF \<open>1 \<le> y\<close> \<open>y < h - 1\<close> that] .
    qed
  next
    case False
    then show ?thesis using that by (simp add: forLoop_done)
  qed
  have init: "edgeOk ?n \<lparr>magnitude = replicate ?n (Fin 0), direction = replicate ?n (Fin 0)\<rparr>"
    using pi_ge_zero by (simp add: edgeOk_def list_all_iff)
  show ?thesis
  proof (cases "1 \<le> h - 1")
    case True
    show ?thesis
      unfolding applySobelFilter_def
    proof (rule forLoop_invariant [where P = ?P])
      show "edgeOk ?n \<lparr>magnitude = replicate ?n (Fin 0), direction = replicate ?n (Fin 0)\<rparr>"
        by (rule init)
      show "1 \<le> h - 1" by fact
      show "edgeOk ?n (forLoop 1 (w - 1) (?cell y) t)" if "1 \<le> y" "y < h - 1" "edgeOk ?n t" for y t
        using row [OF that] .
    qed
  next
    case False
    then show ?thesis using init by (simp add: applySobelFilter_def forLoop_done)
  qed
qed


lemma differenceOfGaussians_length:
  assumes "differenceOfGaussians st img = Inr r"
  shows "length r = width img * height img"
proof -
  have "length (forLoop 0 (int (width img * height img)) (\<lambda>i result. wr result i (f i))
           (replicate (width img * height img) 0)) = width img * height img"
    for f :: "int \<Rightarrow> u8"
    using forLoop_fill [of "replicate (width img * height img) 0" "width img * height img" f]
    by simp
  then show ?thesis
    using assms by (auto simp: differenceOfGaussians_def split: sum.splits)
qed

lemma edgeDataOf_edgeOk:
  assumes "edgeDataOf st img = Inr (Some e)"
  shows "edgeOk (width img * height img) e"
proof -
  obtain r where r: "differenceOfGaussians st img = Inr r"
    and e: "e = applySobelFilter r (int (width img)) (int (height img))"
    using assms by (auto simp: edgeDataOf_def split: if_splits sum.splits)
  have "int (length r) = int (width img) * int (height img)"
    using differenceOfGaussians_length [OF r] by simp
  then have "edgeOk (nat (int (width img) * int (height img))) e"
    unfolding e by (intro applySobelFilter_edgeOk) simp_all
  then show ?thesis by (simp add: nat_mult_distrib)
qed

lemma blockPixel_edge:
  assumes wf: "length (data img) = width img * height img * 4"
    and "0 \<le> ix" "ix < int (width img)" "0 \<le> iy" "iy < int (height img)"
    and "detectEdges st"
  shows "sumMag (blockPixel st img (Some e) ix iy acc)
           = jadd (sumMag acc) (rdF (magnitude e) (iy * int (width img) + ix))"
    and "sumDir (blockPixel st img (Some e) ix iy acc)
           = jadd (sumDir acc) (rdF (direction e) (iy * int (width img) + ix))"
    and "pixelCount (blockPixel st img (Some e) ix iy acc) = pixelCount acc + 1"
proof -
  have "(iy * int (width img) + ix) * 4 + 2 < int (width img) * int (height img) * 4"
    using assms cell_index(2) [of iy "int (height img)" ix "int (width img)"] by simp
  then have inb: "\<not> int (length (data img)) \<le> (iy * int (width img) + ix) * 4 + 2"
    using wf by simp
  show "sumMag (blockPixel st img (Some e) ix iy acc)
           = jadd (sumMag acc) (rdF (magnitude e) (iy * int (width img) + ix))"
    "sumDir (blockPixel st img (Some e) ix iy acc)
           = jadd (sumDir acc) (rdF (direction e) (iy * int (width img) + ix))"
    "pixelCount (blockPixel st img (Some e) ix iy acc) = pixelCount acc + 1"
    using assms inb by (simp_all add: blockPixel_def Let_def)
qed

lemma blockPixel_sumsOk:
  assumes wf: "length (data img) = width img * height img * 4"
    and e: "edgeOk (width img * height img) e"
    and "0 \<le> ix" "ix < int (width img)" "0 \<le> iy" "iy < int (height img)"
    and "detectEdges st" and ok: "sumsOk acc"
  shows "sumsOk (blockPixel st img (Some e) ix iy acc)"
proof -
  let ?k = "iy * int (width img) + ix"
  have k: "0 \<le> ?k" "?k < int (width img) * int (height img)"
    using assms cell_index [of iy "int (height img)" ix "int (width img)"] by simp_all
  then have kn: "nat ?k < width img * height img"
    by (metis nat_less_iff of_nat_mult)
  have "isFin (magnitude e ! nat ?k)" "isAngle (direction e ! nat ?k)"
    using e kn by (simp_all add: edgeOk_def list_all_length)
  then obtain m v where mv: "magnitude e ! nat ?k = Fin m" "direction e ! nat ?k = Fin v"
    "- pi \<le> v" "v \<le> pi"
    by (cases "magnitude e ! nat ?k"; cases "direction e ! nat ?k") auto
  have rd: "rdF (magnitude e) ?k = Fin m" "rdF (direction e) ?k = Fin v"
    using e k mv by (simp_all add: rdF_def edgeOk_def)
  obtain sm sd where s: "sumMag acc = Fin sm" "sumDir acc = Fin sd"
    "\<bar>sd\<bar> \<le> pi * of_int (pixelCount acc)" "0 \<le> pixelCount acc"
    using ok by (cases "sumMag acc"; cases "sumDir acc") (auto simp: sumsOk_def)
  have "\<bar>sd + v\<bar> \<le> pi * of_int (pixelCount acc + 1)"
    using s(3) mv(3,4) by (simp add: algebra_simps abs_le_iff)
  then show ?thesis
    using s rd blockPixel_edge [OF wf assms(3-7), of e acc]
    by (simp add: sumsOk_def)
qed

lemma calculateBlockInfo_sumsOk:
  assumes wf: "length (data img) = width img * height img * 4"
    and e: "edgeOk (width img * height img) e"
    and "0 \<le> x" "0 \<le> y" "detectEdges st"
  shows "sumsOk (calculateBlockInfo st img x y (Some e))"
proof -
  let ?bw = "min (blockSize st) (int (width img) - x)"
  let ?bh = "min (blockSize st) (int (height img) - y)"
  let ?P = "\<lambda>(j::int) t. sumsOk t"
  have row: "sumsOk (forLoop 0 ?bw (\<lambda>dx. blockPixel st img (Some e) (x + dx) (y + dy)) t)"
    if dy: "0 \<le> dy" "dy < ?bh" and t: "sumsOk t" for dy t
  proof (cases "0 \<le> ?bw")
    case True
    show ?thesis
    proof (rule forLoop_invariant [where P = ?P])
      show "sumsOk t" by fact
      show "0 \<le> ?bw" by fact
      show "sumsOk (blockPixel st img (Some e) (x + dx) (y + dy) u)"
        if "0 \<le> dx" "dx < ?bw" "sumsOk u" for dx u
        using that dy assms by (intro blockPixel_sumsOk) auto
    qed
  next
    case False
    then have "?bw \<le> 0" by arith
    with t show ?thesis by (simp only: forLoop_done)
  qed
  have init: "sumsOk \<lparr>sumBrightness = Fin 0, sumColor = [Fin 0, Fin 0, Fin 0], pixelCount = 0,
            sumMag = Fin 0, sumDir = Fin 0\<rparr>"
    by (simp add: sumsOk_def)
  show ?thesis
  proof (cases "0 \<le> ?bh")
    case True
    show ?thesis
      unfolding calculateBlockInfo_def Let_def
    proof (rule forLoop_invariant [where P = ?P])
      show "sumsOk \<lparr>sumBrightness = Fin 0, sumColor = [Fin 0, Fin 0, Fin 0], pixelCount = 0,
            sumMag = Fin 0, sumDir = Fin 0\<rparr>" by (rule init)
      show "0 \<le> ?bh" by fact
      show "sumsOk (forLoop 0 ?bw (\<lambda>dx. blockPixel st img (Some e) (x + dx) (y + dy)) t)"
        if "0 \<le> dy" "dy < ?bh" "sumsOk t" for dy t
        using row [OF that] .
    qed
  next
    case False
    then have "?bh \<le> 0" by arith
    with init show ?thesis by (simp only: calculateBlockInfo_def Let_def forLoop_done)
  qed
qed

lemma calculateBlockInfo_edge_average:
  assumes wf: "length (data img) = width img * height img * 4"
    and e: "edgeOk (width img * height img) e"
    and "0 \<le> x" "x < int (width img)" "0 \<le> y" "y < int (height img)"
    and "0 < blockSize st" "detectEdges st"
  shows "\<exists>m d. sumMag (calculateBlockInfo st img x y (Some e)) = Fin m
             \<and> sumDir (calculateBlockInfo st img x y (Some e)) = Fin d
             \<and> 0 < pixelCount (calculateBlockInfo st img x y (Some e))
             \<and> - pi \<le> d / of_int (pixelCount (calculateBlockInfo st img x y (Some e)))
             \<and> d / of_int (pixelCount (calculateBlockInfo st img x y (Some e))) \<le> pi"
proof -
  let ?b = "calculateBlockInfo st img x y (Some e)"
  let ?bw = "min (blockSize st) (int (width img) - x)"
  let ?bh = "min (blockSize st) (int (height img) - y)"
  have "pixelCount ?b = ?bw * ?bh"
    unfolding calculateBlockInfo_def Let_def
    using assms by (subst block_count) auto
  moreover have "0 < ?bw" "0 < ?bh" using assms by simp_all
  ultimately have pos: "0 < pixelCount ?b" by simp
  have ok: "sumsOk ?b" using assms by (intro calculateBlockInfo_sumsOk) simp_all
  then obtain m d where md: "sumMag ?b = Fin m" "sumDir ?b = Fin d"
    "\<bar>d\<bar> \<le> pi * of_int (pixelCount ?b)"
    by (cases "sumMag ?b"; cases "sumDir ?b") (auto simp: sumsOk_def)
  have r: "0 < real_of_int (pixelCount ?b)" using pos by simp
  have "- (pi * of_int (pixelCount ?b)) \<le> d" "d \<le> pi * of_int (pixelCount ?b)"
    using md(3) by (simp_all add: abs_le_iff minus_le_iff)
  then have "- pi \<le> d / of_int (pixelCount ?b)" "d / of_int (pixelCount ?b) \<le> pi"
    using r by (simp_all add: pos_le_divide_eq pos_divide_le_eq)
  then show ?thesis using md pos by blast
qed

lemma pipeline_block_edge_average:
  assumes "edgeDataOf st img = Inr (Some e)"
    and "length (data img) = width img * height img * 4"
    and "0 \<le> x" "x < int (width img)" "0 \<le> y" "y < int (height img)" "0 < blockSize st"
  shows "\<exists>m d. sumMag (calculateBlockInfo st img x y (Some e)) = Fin m
             \<and> sumDir (calculateBlockInfo st img x y (Some e)) = Fin d
             \<and> 0 < pixelCount (calculateBlockInfo st img x y (Some e))
             \<and> - pi \<le> d / of_int (pixelCount (calculateBlockInfo st img x y (Some e)))
             \<and> d / of_int (pixelCount (calculateBlockInfo st img x y (Some e))) \<le> pi"
proof -
  have "detectEdges st" using assms(1) by (auto simp: edgeDataOf_def split: if_splits)
  then show ?thesis
    using assms edgeDataOf_edgeOk [OF assms(1)] by (intro calculateBlockInfo_edge_average)
qed

subsection \<open>The pipeline\<close>

text \<open>With a positive step and a body that returns, the stepped loop returns.\<close>

lemma stepLoop_returns:
  assumes "0 < step" and "\<And>j t. \<exists>t'. body j t = Some t'"
  shows "\<exists>s'. stepLoop i n step body s = Some s'"
proof (induction "nat (n - i)" arbitrary: i s rule: less_induct)
  case less
  show ?case
  proof (cases "i < n")
    case True
    obtain t' where t': "body i s = Some t'" using assms(2) by blast
    have "nat (n - (i + step)) < nat (n - i)" using True assms(1) by simp
    then obtain s' where "stepLoop (i + step) n step body t' = Some s'"
      using less by blast
    then show ?thesis using True t' by (simp add: stepLoop_step)
  next
    case False
    then show ?thesis by (simp add: stepLoop_done)
  qed
qed

text \<open>
  So with a positive block size the two loops of \<open>generate\<close> end, and \<open>generate\<close> returns:
  a new state, or the error of a negative kernel size.
\<close>

lemma renderBlocks_returns:
  assumes "0 < blockSize st"
  shows "\<exists>r. renderBlocks st imageData edgeData = Some r"
proof -
  have inner: "\<exists>t'. stepLoop 0 (int (width imageData)) (blockSize st)
                   (\<lambda>x (rowText, drawn).
                      let blockInfo = calculateBlockInfo st imageData x y edgeData;
                          char = selectAsciiChar st blockInfo;
                          colour = calculateAverageColor st blockInfo
                      in Some (rowText @ glyphText char,
                               drawn @ [(colour, char, x, y + blockSize st)]))
                   t = Some t'" for y t
    using assms by (intro stepLoop_returns) (auto simp: Let_def split: prod.split)
  show ?thesis
    unfolding renderBlocks_def
  proof (rule stepLoop_returns [OF assms])
    fix j and t :: "string \<times> fillText list"
    obtain newAsciiText drawn where t: "t = (newAsciiText, drawn)" by (cases t)
    obtain row drawn' where
      "stepLoop 0 (int (width imageData)) (blockSize st)
         (\<lambda>x (rowText, drawn).
            let blockInfo = calculateBlockInfo st imageData x j edgeData;
                char = selectAsciiChar st blockInfo;
                colour = calculateAverageColor st blockInfo
            in Some (rowText @ glyphText char,
                     drawn @ [(colour, char, x, j + blockSize st)]))
         ([], drawn) = Some (row, drawn')"
      using inner [of j "([], drawn)"] by (metis surj_pair)
    then show "\<exists>t'. (case t of
                   (newAsciiText, drawn) \<Rightarrow>
                     Option.bind
                       (stepLoop 0 (int (width imageData)) (blockSize st)
                          (\<lambda>x (rowText, drawn).
                             let blockInfo = calculateBlockInfo st imageData x j edgeData;
                                 char = selectAsciiChar st blockInfo;
                                 colour = calculateAverageColor st blockInfo
                             in Some (rowText @ glyphText char,
                                      drawn @ [(colour, char, x, j + blockSize st)]))
                          ([], drawn))
                       (\<lambda>(rowText, drawn). Some (newAsciiText @ rowText @ [CHR 0x0A], drawn)))
                 = Some t'"
      using t by simp
  qed
qed

lemma generate_returns: "0 < blockSize st \<Longrightarrow> \<exists>r. generate st s = Some r"
  using renderBlocks_returns [of st]
  by (auto simp: generate_def Let_def split: option.split sum.split)


subsection \<open>Scenario A: the black image\<close>

lemma nth_concat_replicate:
  "xs \<noteq> [] \<Longrightarrow> i < n * length xs \<Longrightarrow> concat (replicate n xs) ! i = xs ! (i mod length xs)"
proof (induction n arbitrary: i)
  case 0
  then show ?case by simp
next
  case (Suc n)
  show ?case
  proof (cases "i < length xs")
    case True
    then show ?thesis by (simp add: nth_append)
  next
    case False
    then have "i - length xs < n * length xs" using Suc.prems by simp
    then have "concat (replicate n xs) ! (i - length xs) = xs ! ((i - length xs) mod length xs)"
      using Suc.IH Suc.prems(1) by blast
    moreover have "(i - length xs) mod length xs = i mod length xs"
      using False by (simp add: le_mod_geq)
    ultimately show ?thesis using False by (simp add: nth_append)
  qed
qed

lemma length_blackImage: "length (data (blackImage a)) = 1024"
  by (simp add: blackImage_def length_concat sum_list_replicate)

lemma size_blackImage: "int (width (blackImage a)) = 16" "int (height (blackImage a)) = 16"
  by (simp_all add: blackImage_def)

text \<open>The red, green and blue bytes of the black image read as 0.\<close>

lemma rd_blackImage:
  assumes "0 \<le> i" "i < 1024" "i mod 4 \<noteq> 3"
  shows "rd (data (blackImage a)) i = Fin 0"
proof -
  have "nat i < 256 * length [0, 0, 0, a]" using assms by simp
  then have "concat (replicate 256 [0, 0, 0, a]) ! nat i
               = [0, 0, 0, a] ! (nat i mod length [0, 0, 0, a])"
    by (intro nth_concat_replicate) simp_all
  moreover have "i mod 4 = 0 \<or> i mod 4 = 1 \<or> i mod 4 = 2" using assms by presburger
  moreover have "nat i mod 4 = nat (i mod 4)" using assms by (simp add: nat_mod_distrib)
  ultimately have "concat (replicate 256 [0, 0, 0, a]) ! nat i = 0" by auto
  then show ?thesis
    using assms by (simp add: rd_def length_blackImage) (simp add: blackImage_def)
qed

lemma blockPixel_black:
  assumes "0 \<le> ix" "ix < 16" "0 \<le> iy" "iy < 16" "\<not> color st"
  shows "blockPixel st (blackImage a) None ix iy acc
           = acc\<lparr>sumBrightness := jadd (sumBrightness acc) (Fin 0),
                 pixelCount := pixelCount acc + 1\<rparr>"
proof -
  let ?i = "(iy * 16 + ix) * 4"
  have b: "0 \<le> ?i" "?i + 2 < 1024" using assms by simp_all
  have m: "?i mod 4 \<noteq> 3" "(?i + 1) mod 4 \<noteq> 3" "(?i + 2) mod 4 \<noteq> 3" by presburger+
  have r: "rd (data (blackImage a)) ?i = Fin 0" "rd (data (blackImage a)) (?i + 1) = Fin 0"
    "rd (data (blackImage a)) (?i + 2) = Fin 0"
    using b m by (intro rd_blackImage; simp)+
  show ?thesis
    using assms b r
    by (simp add: blockPixel_def Let_def size_blackImage length_blackImage luminance_def)
qed

lemma row_black:
  assumes "0 \<le> x" "0 \<le> bw" "x + bw \<le> 16" "0 \<le> iy" "iy < 16" "\<not> color st"
  shows "forLoop 0 bw (\<lambda>dx. blockPixel st (blackImage a) None (x + dx) iy) (blackBlock n)
           = blackBlock (n + bw)"
proof -
  have step: "blockPixel st (blackImage a) None (x + j) iy t = blackBlock (n + (j + 1))"
    if "0 \<le> j" "j < bw" "t = blackBlock (n + j)" for j t
    using that assms by (simp add: blockPixel_black blackBlock_def add.assoc)
  show ?thesis
    using forLoop_invariant [where P = "\<lambda>j t. t = blackBlock (n + j)" and i = 0 and n = bw
        and s = "blackBlock n" and body = "\<lambda>dx. blockPixel st (blackImage a) None (x + dx) iy"]
      step assms(2) by simp
qed

text \<open>Each of the four blocks of the black image: 64 pixels, brightness sum 0.\<close>

lemma block_black:
  assumes "0 \<le> x" "x + 8 \<le> 16" "0 \<le> y" "y + 8 \<le> 16" "blockSize st = 8" "\<not> color st"
  shows "calculateBlockInfo st (blackImage a) x y None = blackBlock 64"
proof -
  have step: "forLoop 0 8 (\<lambda>dx. blockPixel st (blackImage a) None (x + dx) (y + j)) t
                = blackBlock (8 * (j + 1))"
    if "0 \<le> j" "j < 8" "t = blackBlock (8 * j)" for j t
    using that assms row_black [of x 8 "y + j" st a "8 * j"] by simp
  have "forLoop 0 8 (\<lambda>dy. forLoop 0 8 (\<lambda>dx. blockPixel st (blackImage a) None (x + dx) (y + dy)))
          (blackBlock 0) = blackBlock (8 * 8)"
    using forLoop_invariant [where P = "\<lambda>j t. t = blackBlock (8 * j)" and i = 0 and n = 8
        and s = "blackBlock 0"
        and body = "\<lambda>dy. forLoop 0 8 (\<lambda>dx. blockPixel st (blackImage a) None (x + dx) (y + dy))"]
      step by simp
  moreover have "min 8 (16 - x) = 8" "min 8 (16 - y) = 8"
    using assms by simp_all
  ultimately show ?thesis
    using assms by (simp add: calculateBlockInfo_def Let_def blackBlock_def size_blackImage)
qed

lemma select_black: "\<not> detectEdges st \<Longrightarrow> selectAsciiChar st (blackBlock 64) = Some CHR '' ''"
  by (simp add: selectAsciiChar_def edgeOverride_def clampedBrightness_def avgBrightness_def
      rampChar_def blackBlock_def)

lemma colour_off: "\<not> color st \<Longrightarrow> calculateAverageColor st b = [Fin 255, Fin 255, Fin 255]"
  by (simp add: calculateAverageColor_def)

text \<open>The two loops over the block origins 0 and 8, unrolled.\<close>

lemma renderBlocks_black:
  assumes "blockSize st = 8" "\<not> color st" "\<not> detectEdges st"
  shows "renderBlocks st (blackImage a) None
           = Some ([CHR '' '', CHR '' '', CHR 0x0A, CHR '' '', CHR '' '', CHR 0x0A],
                   [([Fin 255, Fin 255, Fin 255], Some CHR '' '', 0, 8),
                    ([Fin 255, Fin 255, Fin 255], Some CHR '' '', 8, 8),
                    ([Fin 255, Fin 255, Fin 255], Some CHR '' '', 0, 16),
                    ([Fin 255, Fin 255, Fin 255], Some CHR '' '', 8, 16)])"
  using assms
  by (simp add: renderBlocks_def size_blackImage stepLoop_step stepLoop_done block_black
      select_black colour_off glyphText_def)

lemma renderBlocks_scenario:
  "renderBlocks scenarioSettings (blackImage 255) None
     = Some ([CHR '' '', CHR '' '', CHR 0x0A, CHR '' '', CHR '' '', CHR 0x0A],
             [([Fin 255, Fin 255, Fin 255], Some CHR '' '', 0, 8),
              ([Fin 255, Fin 255, Fin 255], Some CHR '' '', 8, 8),
              ([Fin 255, Fin 255, Fin 255], Some CHR '' '', 0, 16),
              ([Fin 255, Fin 255, Fin 255], Some CHR '' '', 8, 16)])"
  by (rule renderBlocks_black) (simp_all add: scenarioSettings_def defaultSettings_def)

text \<open>
  Claim C1, as amended. For a uniform black image of 16 by 16 pixels, with block size 8,
  \<open>autoAdjust\<close>, \<open>color\<close> and \<open>detectEdges\<close> off, and any glyph ramp and brightness
  multiplier, the text is two rows of two space characters, one per block of 8 by 8
  pixels, each row ended by a newline; the four glyphs are drawn in white.
\<close>

theorem generate_black_image:
  assumes "blockSize st = 8" "\<not> autoAdjust st" "\<not> color st" "\<not> detectEdges st"
  shows "generate st \<lparr>originalImage = Some (blackImage a), asciiText = t, canvas = Some drawn\<rparr>
           = Some (Inr \<lparr>originalImage = Some (blackImage a),
                asciiText = [CHR '' '', CHR '' '', CHR 0x0A, CHR '' '', CHR '' '', CHR 0x0A],
                canvas = Some [([Fin 255, Fin 255, Fin 255], Some CHR '' '', 0, 8),
                               ([Fin 255, Fin 255, Fin 255], Some CHR '' '', 8, 8),
                               ([Fin 255, Fin 255, Fin 255], Some CHR '' '', 0, 16),
                               ([Fin 255, Fin 255, Fin 255], Some CHR '' '', 8, 16)]\<rparr>)"
  using assms by (simp add: generate_def edgeDataOf_def renderBlocks_black)

theorem generate_black_image_witness:
  "generatedText
     (generate scenarioSettings
        \<lparr>originalImage = Some (blackImage 255), asciiText = [], canvas = Some []\<rparr>)
     = Some [CHR '' '', CHR '' '', CHR 0x0A, CHR '' '', CHR '' '', CHR 0x0A]"
  using generate_black_image [of scenarioSettings 255 "[]" "[]"]
  by (simp add: generatedText_def scenarioSettings_def defaultSettings_def)

text \<open>
  Claim C1 as the specification states it, with rows of eight space characters, fails:
  16 pixels hold two blocks of 8, so a row has two glyphs.
\<close>

theorem generate_black_image_counterexample:
  "generatedText
     (generate scenarioSettings
        \<lparr>originalImage = Some (blackImage 255), asciiText = [], canvas = Some []\<rparr>)
     \<noteq> Some (''        '' @ [CHR 0x0A] @ ''        '' @ [CHR 0x0A])"
  using renderBlocks_scenario
  by (simp add: generatedText_def generate_def edgeDataOf_def scenarioSettings_def
      defaultSettings_def)


end
